theory Spec2Isabelle
  imports Main
begin

section \<open>Python values\<close>

text \<open>
  The sync service handles change events, resume tokens and option dictionaries as plain
  Python values. The model covers the JSON-shaped ones: \<open>None\<close>, booleans, unbounded
  integers, strings, lists and dictionaries with string keys. A dictionary is an
  association list in insertion order, as Python iterates it; a key is looked up at its
  first binding.
\<close>

datatype pyval =
    PNone
  | PBool bool
  | PInt int
  | PStr string
  | PList "pyval list"
  | PDict "(string \<times> pyval) list"

type_synonym pydict = "(string \<times> pyval) list"

text \<open>Exceptions (subclasses of Python's \<open>Exception\<close>) that the modelled code meets.
  \<open>OperationFailure\<close> stands for pymongo's class and its subclasses.\<close>

datatype exn =
    OperationFailure
  | ConnectionFailure
  | AttributeError
  | TypeError
  | ValueError
  | IndexError
  | OSError

text \<open>Python truthiness, as \<open>if x:\<close>, \<open>not x\<close> and \<open>x or y\<close> test it.\<close>

fun truthy :: "pyval \<Rightarrow> bool" where
  "truthy PNone = False"
| "truthy (PBool b) = b"
| "truthy (PInt i) = (i \<noteq> 0)"
| "truthy (PStr s) = (s \<noteq> [])"
| "truthy (PList xs) = (xs \<noteq> [])"
| "truthy (PDict d) = (d \<noteq> [])"

text \<open>\<open>d.get(k)\<close> and \<open>d.get(k, default)\<close> on a dictionary.\<close>

definition py_get_default :: "pydict \<Rightarrow> string \<Rightarrow> pyval \<Rightarrow> pyval" where
  "py_get_default d k dflt = (case map_of d k of None \<Rightarrow> dflt | Some v \<Rightarrow> v)"

definition py_get :: "pydict \<Rightarrow> string \<Rightarrow> pyval" where
  "py_get d k = py_get_default d k PNone"

text \<open>\<open>x.get(k)\<close> on an arbitrary value: only a dictionary has the method.\<close>

definition attr_get :: "pyval \<Rightarrow> string \<Rightarrow> exn + pyval" where
  "attr_get x k = (case x of PDict d \<Rightarrow> Inr (py_get d k) | _ \<Rightarrow> Inl AttributeError)"

text \<open>\<open>d[k] = v\<close>: an existing key keeps its place, a new key goes last.\<close>

primrec dict_set :: "'k \<Rightarrow> 'v \<Rightarrow> ('k \<times> 'v) list \<Rightarrow> ('k \<times> 'v) list" where
  "dict_set k v [] = [(k, v)]"
| "dict_set k v (p # ps) = (if fst p = k then (k, v) # ps else p # dict_set k v ps)"

text \<open>\<open>next(iter(d.values()), None)\<close>.\<close>

definition first_value :: "pydict \<Rightarrow> pyval" where
  "first_value d = (case d of [] \<Rightarrow> PNone | kv # _ \<Rightarrow> snd kv)"

section \<open>Document identity (sync.py, \<open>extract_document_id\<close>)\<close>

text \<open>
  \<^verbatim>\<open>
  doc_id = document_key.get("_id") or document_key.get("")
  if not doc_id and full_document:
      doc_id = full_document.get("_id")
  if not doc_id and document_key:
      doc_id = next(iter(document_key.values()), None)
  return doc_id
  \<close>
  An absent \<open>full_document\<close> is \<open>None\<close>. The three statements are three steps; a
  \<open>.get\<close> on a value that is not a dictionary raises \<open>AttributeError\<close>.
\<close>

definition py_or :: "pyval \<Rightarrow> pyval \<Rightarrow> pyval" where
  "py_or a b = (if truthy a then a else b)"

definition extract_document_id :: "pyval \<Rightarrow> pyval \<Rightarrow> exn + pyval" where
  "extract_document_id document_key full_document =
     (case document_key of
        PDict dk \<Rightarrow>
          (let doc_id1 = py_or (py_get dk ''_id'') (py_get dk '''') in
           case (if \<not> truthy doc_id1 \<and> truthy full_document
                 then attr_get full_document ''_id'' else Inr doc_id1) of
             Inl e \<Rightarrow> Inl e
           | Inr doc_id2 \<Rightarrow>
               Inr (if \<not> truthy doc_id2 \<and> truthy document_key
                    then first_value dk else doc_id2))
      | _ \<Rightarrow> Inl AttributeError)"

text \<open>The rule as the specification words it: the first candidate that is not null,
  null when there is none.\<close>

definition first_non_null :: "pyval list \<Rightarrow> pyval" where
  "first_non_null cs = (case filter (\<lambda>v. v \<noteq> PNone) cs of [] \<Rightarrow> PNone | v # _ \<Rightarrow> v)"

definition spec_extract_document_id :: "pydict \<Rightarrow> pydict option \<Rightarrow> pyval" where
  "spec_extract_document_id dk fd =
     first_non_null
       [py_get dk ''_id'', py_get dk '''',
        (case fd of None \<Rightarrow> PNone | Some f \<Rightarrow> py_get f ''_id''),
        first_value dk]"

text \<open>An optional document as the Python value the function receives.\<close>

definition opt_doc :: "pydict option \<Rightarrow> pyval" where
  "opt_doc fd = (case fd of None \<Rightarrow> PNone | Some f \<Rightarrow> PDict f)"

section \<open>The state store (state.py, class \<open>SyncState\<close>)\<close>

text \<open>
  \<open>self._state\<close> is a dictionary with the keys \<open>resume_tokens\<close>, \<open>last_sync_time\<close>
  and \<open>sync_stats\<close>; the object also counts the changes since the last persist. The
  statistics are read with \<open>stats.get(k, 0)\<close>, so a counter missing from a loaded file
  counts as zero.
\<close>

record sync_state =
  resume_tokens :: pydict
  last_sync_time :: pyval
  sync_stats :: "(string \<times> int) list"

record SyncState =
  state :: sync_state
  changes_since_persist :: int

definition initial_state :: sync_state where
  "initial_state =
     \<lparr>resume_tokens = [], last_sync_time = PNone,
      sync_stats = [(''total_synced'', 0), (''inserts'', 0), (''updates'', 0),
                    (''deletes'', 0), (''errors'', 0)]\<rparr>"

definition stats_get :: "(string \<times> int) list \<Rightarrow> string \<Rightarrow> int" where
  "stats_get stats k = (case map_of stats k of None \<Rightarrow> 0 | Some n \<Rightarrow> n)"

definition bump :: "string \<Rightarrow> (string \<times> int) list \<Rightarrow> (string \<times> int) list" where
  "bump k stats = dict_set k (stats_get stats k + 1) stats"

text \<open>
  \<^verbatim>\<open>
  stats = self._state["sync_stats"]
  stats["total_synced"] = stats.get("total_synced", 0) + 1
  if operation_type in ("insert",):            stats["inserts"] = stats.get("inserts", 0) + 1
  elif operation_type in ("update", "replace"): stats["updates"] = stats.get("updates", 0) + 1
  elif operation_type == "delete":              stats["deletes"] = stats.get("deletes", 0) + 1
  elif operation_type == "error":               stats["errors"] = stats.get("errors", 0) + 1
  \<close>
\<close>

definition record_operation :: "string \<Rightarrow> SyncState \<Rightarrow> SyncState" where
  "record_operation operation_type s =
     (let stats = bump ''total_synced'' (sync_stats (state s));
          stats' =
            (if operation_type = ''insert'' then bump ''inserts'' stats
             else if operation_type = ''update'' \<or> operation_type = ''replace''
               then bump ''updates'' stats
             else if operation_type = ''delete'' then bump ''deletes'' stats
             else if operation_type = ''error'' then bump ''errors'' stats
             else stats)
      in s\<lparr>state := (state s)\<lparr>sync_stats := stats'\<rparr>\<rparr>)"

definition get_stats :: "SyncState \<Rightarrow> (string \<times> int) list" where
  "get_stats s = sync_stats (state s)"

definition get_resume_token :: "SyncState \<Rightarrow> string \<Rightarrow> pyval" where
  "get_resume_token s collection = py_get (resume_tokens (state s)) collection"

section \<open>The state file on disk (state.py, \<open>_save\<close> and \<open>_load\<close>)\<close>

text \<open>
  The directory of the state file holds the state file itself (absent, or with some
  content) and temporary files. A file's content is either a complete serialization of a
  state, or an incomplete one (an empty or partly written file, which does not parse).
  The system calls issued are kept in order; \<open>SysFsync\<close> is in the vocabulary so that a
  statement about it can be made. Every call of the environment may fail: \<open>faults\<close>
  says which exception each step raises, if any.
\<close>

datatype file_content = Truncated | Serialized sync_state

datatype syscall =
    SysMkdir
  | SysMkstemp nat
  | SysWrite nat
  | SysFsync nat
  | SysReplace nat
  | SysUnlink nat

record filesystem =
  parent_exists :: bool
  state_file :: "file_content option"
  temp_files :: "(nat \<times> file_content) list"
  syscalls :: "syscall list"

record faults =
  mkdir_error :: "exn option"
  mkstemp_error :: "exn option"
  write_error :: "exn option"
  replace_error :: "exn option"
  unlink_fails :: bool

definition no_faults :: faults where
  "no_faults = \<lparr>mkdir_error = None, mkstemp_error = None, write_error = None,
                 replace_error = None, unlink_fails = False\<rparr>"

definition log_call :: "syscall \<Rightarrow> filesystem \<Rightarrow> filesystem" where
  "log_call c fs = fs\<lparr>syscalls := syscalls fs @ [c]\<rparr>"

definition dict_del :: "'k \<Rightarrow> ('k \<times> 'v) list \<Rightarrow> ('k \<times> 'v) list" where
  "dict_del k d = filter (\<lambda>p. fst p \<noteq> k) d"

text \<open>\<open>tempfile.mkstemp\<close> picks a name that no file of the directory has.\<close>

definition fresh_temp :: "(nat \<times> file_content) list \<Rightarrow> nat" where
  "fresh_temp ts = Suc (fold max (map fst ts) 0)"

text \<open>
  The body of the \<open>try\<close> block of \<open>_save\<close>:
  \<^verbatim>\<open>
  with os.fdopen(fd, 'w') as f:
      json.dump(self._state, f, indent=2, default=str)
  os.replace(temp_path, self.state_file)
  \<close>
  A failed write leaves the temporary file as it is, incomplete. \<open>os.replace\<close> moves
  the content of the temporary file onto the state file.
\<close>

definition write_and_replace ::
  "faults \<Rightarrow> sync_state \<Rightarrow> nat \<Rightarrow> filesystem \<Rightarrow> (exn + unit) \<times> filesystem" where
  "write_and_replace f st t fs =
     (let fs1 = log_call (SysWrite t) fs in
      case write_error f of
        Some e \<Rightarrow> (Inl e, fs1)
      | None \<Rightarrow>
          (let fs2 = log_call (SysReplace t)
                       (fs1\<lparr>temp_files := dict_set t (Serialized st) (temp_files fs1)\<rparr>) in
           case replace_error f of
             Some e \<Rightarrow> (Inl e, fs2)
           | None \<Rightarrow>
               (Inr (), fs2\<lparr>state_file := map_of (temp_files fs2) t,
                             temp_files := dict_del t (temp_files fs2)\<rparr>)))"

text \<open>
  The handler of \<open>_save\<close>:
  \<^verbatim>\<open>
  except Exception as e:
      try:
          os.unlink(temp_path)
      except OSError:
          pass
      raise e
  \<close>
\<close>

definition unlink_temp :: "faults \<Rightarrow> nat \<Rightarrow> filesystem \<Rightarrow> filesystem" where
  "unlink_temp f t fs =
     (let fs1 = log_call (SysUnlink t) fs in
      if unlink_fails f then fs1 else fs1\<lparr>temp_files := dict_del t (temp_files fs1)\<rparr>)"

text \<open>
  \<open>_save\<close>: \<open>mkdir(parents=True, exist_ok=True)\<close> and \<open>mkstemp\<close> stand before the
  \<open>try\<close>, so their exceptions propagate with no clean-up.
\<close>

definition save :: "faults \<Rightarrow> sync_state \<Rightarrow> filesystem \<Rightarrow> (exn + unit) \<times> filesystem" where
  "save f st fs =
     (let fs1 = log_call SysMkdir fs in
      case mkdir_error f of
        Some e \<Rightarrow> (Inl e, fs1)
      | None \<Rightarrow>
          (let fs2 = fs1\<lparr>parent_exists := True\<rparr>;
               t = fresh_temp (temp_files fs2);
               fs3 = log_call (SysMkstemp t) fs2 in
           case mkstemp_error f of
             Some e \<Rightarrow> (Inl e, fs3)
           | None \<Rightarrow>
               (case write_and_replace f st t
                       (fs3\<lparr>temp_files := (t, Truncated) # temp_files fs3\<rparr>) of
                  (Inl e, fs4) \<Rightarrow> (Inl e, unlink_temp f t fs4)
                | (Inr u, fs4) \<Rightarrow> (Inr u, fs4))))"

text \<open>
  \<open>_load\<close> overlays a state file that parses onto the defaults; an absent or
  unparsable file leaves the defaults. \<open>__init__\<close> starts the counter at zero.
\<close>

definition load :: "filesystem \<Rightarrow> sync_state" where
  "load fs = (case state_file fs of Some (Serialized st) \<Rightarrow> st | _ \<Rightarrow> initial_state)"

definition new_SyncState :: "filesystem \<Rightarrow> SyncState" where
  "new_SyncState fs = \<lparr>state = load fs, changes_since_persist = 0\<rparr>"

text \<open>The resume token a restarted service reads from the disk.\<close>

definition on_disk_token :: "filesystem \<Rightarrow> string \<Rightarrow> pyval" where
  "on_disk_token fs collection = get_resume_token (new_SyncState fs) collection"

section \<open>State store operations that touch the disk\<close>

record world =
  store :: SyncState
  disk :: filesystem

text \<open>
  \<^verbatim>\<open>
  def persist(self):
      self._save()
      self._changes_since_persist = 0
  \<close>
\<close>

definition persist :: "faults \<Rightarrow> world \<Rightarrow> (exn + unit) \<times> world" where
  "persist f w =
     (case save f (state (store w)) (disk w) of
        (Inl e, fs) \<Rightarrow> (Inl e, w\<lparr>disk := fs\<rparr>)
      | (Inr u, fs) \<Rightarrow>
          (Inr (), w\<lparr>store := (store w)\<lparr>changes_since_persist := 0\<rparr>, disk := fs\<rparr>))"

text \<open>
  \<^verbatim>\<open>
  def flush_if_pending(self):
      if self._changes_since_persist > 0:
          self.persist()
  \<close>
\<close>

definition flush_if_pending :: "faults \<Rightarrow> world \<Rightarrow> (exn + unit) \<times> world" where
  "flush_if_pending f w =
     (if changes_since_persist (store w) > 0 then persist f w else (Inr (), w))"

text \<open>
  \<^verbatim>\<open>
  def update_resume_token(self, collection, token, persist_interval=10):
      self._state.setdefault("resume_tokens", {})[collection] = token
      self._state["last_sync_time"] = datetime.utcnow().isoformat() + "Z"
      self._changes_since_persist += 1
      if self._changes_since_persist >= persist_interval:
          self.persist()
          self._changes_since_persist = 0
  \<close>
  The clock reading \<open>datetime.utcnow().isoformat()\<close> is the argument \<open>now\<close>.
\<close>

definition update_resume_token ::
  "faults \<Rightarrow> string \<Rightarrow> string \<Rightarrow> pyval \<Rightarrow> int \<Rightarrow> world \<Rightarrow> (exn + unit) \<times> world" where
  "update_resume_token f now collection token persist_interval w =
     (let s = store w;
          st = (state s)\<lparr>resume_tokens := dict_set collection token (resume_tokens (state s)),
                          last_sync_time := PStr (now @ ''Z'')\<rparr>;
          w1 = w\<lparr>store := s\<lparr>state := st,
                              changes_since_persist := changes_since_persist s + 1\<rparr>\<rparr>
      in if changes_since_persist (store w1) \<ge> persist_interval then
           (case persist f w1 of
              (Inl e, w2) \<Rightarrow> (Inl e, w2)
            | (Inr u, w2) \<Rightarrow>
                (Inr (), w2\<lparr>store := (store w2)\<lparr>changes_since_persist := 0\<rparr>\<rparr>))
         else (Inr (), w1))"

text \<open>
  \<^verbatim>\<open>
  def init_collections(self, collections):
      tokens = self._state.setdefault("resume_tokens", {})
      for coll in collections:
          if coll not in tokens:
              tokens[coll] = None
      self.persist()
  \<close>
\<close>

fun init_tokens :: "string list \<Rightarrow> pydict \<Rightarrow> pydict" where
  "init_tokens [] tokens = tokens"
| "init_tokens (coll # colls) tokens =
     init_tokens colls (if map_of tokens coll = None then dict_set coll PNone tokens else tokens)"

definition init_collections :: "faults \<Rightarrow> string list \<Rightarrow> world \<Rightarrow> (exn + unit) \<times> world" where
  "init_collections f collections w =
     persist f
       (w\<lparr>store := (store w)\<lparr>state := (state (store w))
          \<lparr>resume_tokens := init_tokens collections (resume_tokens (state (store w)))\<rparr>\<rparr>\<rparr>)"

text \<open>A history of calls on the state store, each with the faults the disk shows during
  it. A caller may catch an exception and go on, so a history runs past failed calls.\<close>

datatype store_op =
    UpdateResumeToken string string pyval int
  | RecordOperation string
  | FlushIfPending
  | Persist
  | InitCollections "string list"

fun apply_op :: "faults \<Rightarrow> store_op \<Rightarrow> world \<Rightarrow> (exn + unit) \<times> world" where
  "apply_op f (UpdateResumeToken now c t k) w = update_resume_token f now c t k w"
| "apply_op f (RecordOperation kind) w = (Inr (), w\<lparr>store := record_operation kind (store w)\<rparr>)"
| "apply_op f FlushIfPending w = flush_if_pending f w"
| "apply_op f Persist w = persist f w"
| "apply_op f (InitCollections colls) w = init_collections f colls w"

fun run :: "(faults \<times> store_op) list \<Rightarrow> world \<Rightarrow> world" where
  "run [] w = w"
| "run ((f, operation) # ops) w = run ops (snd (apply_op f operation w))"

text \<open>The token most recently supplied for a collection by a history, if any.\<close>

fun latest_token :: "string \<Rightarrow> store_op list \<Rightarrow> pyval option" where
  "latest_token c [] = None"
| "latest_token c (operation # ops) =
     (case latest_token c ops of
        Some t \<Rightarrow> Some t
      | None \<Rightarrow>
          (case operation of
             UpdateResumeToken now c' t k \<Rightarrow> if c' = c then Some t else None
           | _ \<Rightarrow> None))"

text \<open>Whether a call flushes the state to disk in a given world: the counter reaching
  the interval, \<open>flush_if_pending\<close> with pending changes, or an explicit persist
  (\<open>init_collections\<close> persists too).\<close>

fun flushes :: "store_op \<Rightarrow> world \<Rightarrow> bool" where
  "flushes (UpdateResumeToken now c t k) w = (changes_since_persist (store w) + 1 \<ge> k)"
| "flushes (RecordOperation kind) w = False"
| "flushes FlushIfPending w = (changes_since_persist (store w) > 0)"
| "flushes Persist w = True"
| "flushes (InitCollections colls) w = True"

section \<open>Applying a change event (sync.py, \<open>sync_change\<close>)\<close>

text \<open>
  The target database is seen through the calls made on it, in order. A call may raise:
  \<open>call_error\<close> is the exception of the one operation a change event leads to, and
  \<open>handle_error\<close> the exception of the handle lookup
  \<open>target_client[db_name][coll_name]\<close>, which stands before the \<open>try\<close>. A call that
  raises is still a call made. The names of the namespace are whatever values the event
  carries.
\<close>

datatype target_call =
    ReplaceOne pyval pyval pyval pydict bool
  | DeleteOne pyval pyval pyval
  | DropCollection pyval pyval
  | DropDatabase pyval

record target_env =
  handle_error :: "exn option"
  call_error :: "exn option"

type_synonym applied = "(exn + bool) \<times> target_call list \<times> SyncState"

text \<open>
  The branch of \<open>insert\<close>, and with \<open>"update"\<close> recorded the branch of \<open>update\<close> and
  \<open>replace\<close>, which has the same statements:
  \<^verbatim>\<open>
  full_document = change.get("fullDocument")
  if full_document:
      doc_to_write = {k: v for k, v in full_document.items() if k != "_id"}
      doc_id = extract_document_id(document_key, full_document)
      result = target_collection.replace_one({"_id": doc_id}, doc_to_write, upsert=True)
      state.record_operation("insert")
  else:
      logging.warning(...)
  \<close>
\<close>

definition upsert_document ::
  "target_env \<Rightarrow> string \<Rightarrow> pyval \<Rightarrow> pyval \<Rightarrow> pyval \<Rightarrow> pydict \<Rightarrow>
   target_call list \<Rightarrow> SyncState \<Rightarrow> applied" where
  "upsert_document env kind db_name coll_name document_key change tgt st =
     (let full_document = py_get change ''fullDocument'' in
      if truthy full_document then
        (case full_document of
           PDict fd \<Rightarrow>
             (let doc_to_write = filter (\<lambda>kv. fst kv \<noteq> ''_id'') fd in
              case extract_document_id document_key full_document of
                Inl e \<Rightarrow> (Inl e, tgt, st)
              | Inr doc_id \<Rightarrow>
                  (let tgt' = tgt @ [ReplaceOne db_name coll_name doc_id doc_to_write True] in
                   case call_error env of
                     Some e \<Rightarrow> (Inl e, tgt', st)
                   | None \<Rightarrow> (Inr True, tgt', record_operation kind st)))
         | _ \<Rightarrow> (Inl AttributeError, tgt, st))
      else (Inr True, tgt, st))"

text \<open>
  \<^verbatim>\<open>
  doc_id = extract_document_id(document_key) if document_key else None
  if doc_id:
      result = target_collection.delete_one({"_id": doc_id})
      state.record_operation("delete")
  else:
      logging.warning(...)
  \<close>
\<close>

definition delete_document ::
  "target_env \<Rightarrow> pyval \<Rightarrow> pyval \<Rightarrow> pyval \<Rightarrow> target_call list \<Rightarrow> SyncState \<Rightarrow> applied" where
  "delete_document env db_name coll_name document_key tgt st =
     (case (if truthy document_key then extract_document_id document_key PNone
            else Inr PNone) of
        Inl e \<Rightarrow> (Inl e, tgt, st)
      | Inr doc_id \<Rightarrow>
          if truthy doc_id then
            (let tgt' = tgt @ [DeleteOne db_name coll_name doc_id] in
             case call_error env of
               Some e \<Rightarrow> (Inl e, tgt', st)
             | None \<Rightarrow> (Inr True, tgt', record_operation ''delete'' st))
          else (Inr True, tgt, st))"

text \<open>The two drops have a handler of their own, for \<open>OperationFailure\<close> only:
  \<^verbatim>\<open>
  try:
      target_client[db_name].drop_collection(coll_name)
  except OperationFailure as e:
      logging.warning(...)
  \<close>
\<close>

definition drop_on_target :: "target_env \<Rightarrow> target_call \<Rightarrow> target_call list \<Rightarrow> SyncState \<Rightarrow> applied" where
  "drop_on_target env call tgt st =
     (case call_error env of
        Some e \<Rightarrow> if e = OperationFailure then (Inr True, tgt @ [call], st)
                  else (Inl e, tgt @ [call], st)
      | None \<Rightarrow> (Inr True, tgt @ [call], st))"

text \<open>The body of the outer \<open>try\<close>: the chain of \<open>if\<close>/\<open>elif\<close> on the operation
  type, ending in \<open>return True\<close>; \<open>invalidate\<close> returns \<open>False\<close>. An exception leaves
  the body as \<open>Inl\<close>.\<close>

definition apply_change ::
  "target_env \<Rightarrow> pyval \<Rightarrow> pyval \<Rightarrow> pyval \<Rightarrow> pyval \<Rightarrow> pydict \<Rightarrow>
   target_call list \<Rightarrow> SyncState \<Rightarrow> applied" where
  "apply_change env operation db_name coll_name document_key change tgt st =
     (if operation = PStr ''insert'' then
        upsert_document env ''insert'' db_name coll_name document_key change tgt st
      else if operation = PStr ''update'' \<or> operation = PStr ''replace'' then
        upsert_document env ''update'' db_name coll_name document_key change tgt st
      else if operation = PStr ''delete'' then
        delete_document env db_name coll_name document_key tgt st
      else if operation = PStr ''drop'' then
        drop_on_target env (DropCollection db_name coll_name) tgt st
      else if operation = PStr ''dropDatabase'' then
        drop_on_target env (DropDatabase db_name) tgt st
      else if operation = PStr ''invalidate'' then (Inr False, tgt, st)
      else (Inr True, tgt, st))"

text \<open>
  \<open>sync_change\<close> (its \<open>config\<close> argument is not used by the source):
  \<^verbatim>\<open>
  operation = change.get("operationType")
  ns = change.get("ns", {})
  db_name = ns.get("db")
  coll_name = ns.get("coll")
  document_key = change.get("documentKey", {})
  if not db_name or not coll_name:
      return True
  target_collection = target_client[db_name][coll_name]
  try:
      ...
  except OperationFailure as e:
      state.record_operation("error")
      return True
  except Exception as e:
      state.record_operation("error")
      return False
  \<close>
  An exception before the \<open>try\<close> propagates to the caller (\<open>Inl\<close>).
\<close>

definition sync_change :: "target_env \<Rightarrow> pydict \<Rightarrow> target_call list \<Rightarrow> SyncState \<Rightarrow> applied" where
  "sync_change env change tgt st =
     (let operation = py_get change ''operationType'' in
      case py_get_default change ''ns'' (PDict []) of
        PDict ns \<Rightarrow>
          (let db_name = py_get ns ''db'';
               coll_name = py_get ns ''coll'';
               document_key = py_get_default change ''documentKey'' (PDict []) in
           if \<not> truthy db_name \<or> \<not> truthy coll_name then (Inr True, tgt, st)
           else
             (case handle_error env of
                Some e \<Rightarrow> (Inl e, tgt, st)
              | None \<Rightarrow>
                  (case apply_change env operation db_name coll_name document_key change tgt st of
                     (Inl e, tgt', st') \<Rightarrow>
                       (Inr (e = OperationFailure), tgt', record_operation ''error'' st')
                   | (Inr b, tgt', st') \<Rightarrow> (Inr b, tgt', st'))))
      | _ \<Rightarrow> (Inl AttributeError, tgt, st))"

text \<open>The exception, if any, that leaves the body of the \<open>try\<close> for an event whose
  namespace is well formed and whose handle lookup succeeds.\<close>

definition raised_in_try :: "target_env \<Rightarrow> pydict \<Rightarrow> target_call list \<Rightarrow> SyncState \<Rightarrow> exn option" where
  "raised_in_try env change tgt st =
     (case py_get_default change ''ns'' (PDict []) of
        PDict ns \<Rightarrow>
          (case fst (apply_change env (py_get change ''operationType'') (py_get ns ''db'')
                       (py_get ns ''coll'') (py_get_default change ''documentKey'' (PDict []))
                       change tgt st) of
             Inl e \<Rightarrow> Some e
           | Inr b \<Rightarrow> None)
      | _ \<Rightarrow> None)"

section \<open>Change streams (sync.py, the two stream classes)\<close>

text \<open>
  A cursor of the driver is an object outside the repository. Its \<open>try_next\<close> returns
  a change document or \<open>None\<close>, or raises; the outcomes of the coming calls are the
  cursor's script (a cursor whose script has run out has no change). The cursor counts
  the calls made on it.
\<close>

datatype response = Returns pyval | Raises exn

record cursor =
  script :: "response list"
  polls :: nat
  close_error :: "exn option"
  close_calls :: nat

definition cursor_try_next :: "cursor \<Rightarrow> response \<times> cursor" where
  "cursor_try_next c =
     (case script c of
        [] \<Rightarrow> (Returns PNone, c\<lparr>polls := Suc (polls c)\<rparr>)
      | r # rs \<Rightarrow> (r, c\<lparr>script := rs, polls := Suc (polls c)\<rparr>))"

definition cursor_close :: "cursor \<Rightarrow> exn option \<times> cursor" where
  "cursor_close c = (close_error c, c\<lparr>close_calls := Suc (close_calls c)\<rparr>)"

record multi_stream =
  streams :: "cursor list"
  collection_names :: "string list"
  current_index :: nat

type_synonym polled = "string option \<times> pyval"

text \<open>
  The loop of \<open>MultiCollectionChangeStream.try_next\<close>, with the number of rounds left:
  \<^verbatim>\<open>
  for _ in range(len(self.streams)):
      idx = self.current_index
      self.current_index = (self.current_index + 1) % len(self.streams)
      stream = self.streams[idx]
      coll_name = self.collection_names[idx]
      try:
          change = stream.try_next()
          if change is not None:
              return coll_name, change
      except Exception as e:
          logging.warning(...)
  return None, None
  \<close>
  The two list reads stand before the \<open>try\<close>: out of range they raise \<open>IndexError\<close>
  to the caller.
\<close>

fun sweep :: "nat \<Rightarrow> multi_stream \<Rightarrow> (exn + polled) \<times> multi_stream" where
  "sweep 0 m = (Inr (None, PNone), m)"
| "sweep (Suc n) m =
     (let idx = current_index m;
          m1 = m\<lparr>current_index := (current_index m + 1) mod length (streams m)\<rparr> in
      if length (streams m) \<le> idx \<or> length (collection_names m) \<le> idx
      then (Inl IndexError, m1)
      else
        (let coll_name = collection_names m ! idx in
         case cursor_try_next (streams m ! idx) of
           (Returns change, c') \<Rightarrow>
             if change \<noteq> PNone
             then (Inr (Some coll_name, change), m1\<lparr>streams := (streams m1)[idx := c']\<rparr>)
             else sweep n (m1\<lparr>streams := (streams m1)[idx := c']\<rparr>)
         | (Raises e, c') \<Rightarrow> sweep n (m1\<lparr>streams := (streams m1)[idx := c']\<rparr>)))"

definition multi_try_next :: "multi_stream \<Rightarrow> (exn + polled) \<times> multi_stream" where
  "multi_try_next m =
     (if streams m = [] then (Inr (None, PNone), m) else sweep (length (streams m)) m)"

text \<open>\<open>close\<close> calls \<open>close\<close> on every cursor and passes over what it raises.\<close>

fun close_all :: "cursor list \<Rightarrow> cursor list" where
  "close_all [] = []"
| "close_all (c # cs) = snd (cursor_close c) # close_all cs"

definition multi_close :: "multi_stream \<Rightarrow> (exn + unit) \<times> multi_stream" where
  "multi_close m = (Inr (), m\<lparr>streams := close_all (streams m)\<rparr>)"

record single_stream =
  stream :: cursor
  collection_name :: string

text \<open>
  \<^verbatim>\<open>
  try:
      change = self.stream.try_next()
      if change is not None:
          return self.collection_name, change
      return None, None
  except Exception as e:
      return None, None
  \<close>
\<close>

definition single_try_next :: "single_stream \<Rightarrow> (exn + polled) \<times> single_stream" where
  "single_try_next s =
     (case cursor_try_next (stream s) of
        (Returns change, c') \<Rightarrow>
          (if change \<noteq> PNone then Inr (Some (collection_name s), change)
           else Inr (None, PNone),
           s\<lparr>stream := c'\<rparr>)
      | (Raises e, c') \<Rightarrow> (Inr (None, PNone), s\<lparr>stream := c'\<rparr>))"

definition single_close :: "single_stream \<Rightarrow> (exn + unit) \<times> single_stream" where
  "single_close s = (Inr (), s\<lparr>stream := snd (cursor_close (stream s))\<rparr>)"

text \<open>A number of calls of \<open>try_next\<close> in a row, with the results in order.\<close>

fun multi_run :: "nat \<Rightarrow> multi_stream \<Rightarrow> (exn + polled) list \<times> multi_stream" where
  "multi_run 0 m = ([], m)"
| "multi_run (Suc n) m =
     (case multi_try_next m of (r, m') \<Rightarrow>
        (case multi_run n m' of (rs, m'') \<Rightarrow> (r # rs, m'')))"

fun single_run :: "nat \<Rightarrow> single_stream \<Rightarrow> (exn + polled) list \<times> single_stream" where
  "single_run 0 s = ([], s)"
| "single_run (Suc n) s =
     (case single_try_next s of (r, s') \<Rightarrow>
        (case single_run n s' of (rs, s'') \<Rightarrow> (r # rs, s'')))"

text \<open>\<open>MultiCollectionChangeStream([s], [n])\<close>, as its constructor sets it up.\<close>

definition multi_of_single :: "single_stream \<Rightarrow> multi_stream" where
  "multi_of_single s =
     \<lparr>streams = [stream s], collection_names = [collection_name s], current_index = 0\<rparr>"

section \<open>Opening the streams (sync.py, \<open>open_change_stream\<close>)\<close>

text \<open>
  Option dictionaries are objects: \<open>dict(base_options)\<close> makes a new object, and a
  later assignment changes one object only. The heap holds the dictionaries by address,
  so that a write through an alias would show.
\<close>

type_synonym heap = "pydict list"

definition dict_copy :: "nat \<Rightarrow> heap \<Rightarrow> nat \<times> heap" where
  "dict_copy a h = (length h, h @ [h ! a])"

definition heap_setitem :: "nat \<Rightarrow> string \<Rightarrow> pyval \<Rightarrow> heap \<Rightarrow> heap" where
  "heap_setitem a k v h = h[a := dict_set k v (h ! a)]"

text \<open>
  \<^verbatim>\<open>
  coll_options = dict(base_options)
  resume_token = state.get_resume_token(coll_spec)
  if resume_token:
      coll_options["resume_after"] = resume_token
  \<close>
\<close>

definition build_options :: "nat \<Rightarrow> SyncState \<Rightarrow> string \<Rightarrow> heap \<Rightarrow> nat \<times> heap" where
  "build_options base_options st coll_spec h =
     (case dict_copy base_options h of (coll_options, h1) \<Rightarrow>
        (let resume_token = get_resume_token st coll_spec in
         if truthy resume_token
         then (coll_options, heap_setitem coll_options ''resume_after'' resume_token h1)
         else (coll_options, h1)))"

text \<open>\<open>coll_spec.split(".", 1)\<close> when \<open>"." in coll_spec\<close>.\<close>

definition split_spec :: "string \<Rightarrow> (string \<times> string) option" where
  "split_spec coll_spec =
     (if CHR ''.'' \<in> set coll_spec
      then Some (takeWhile (\<lambda>c. c \<noteq> CHR ''.'') coll_spec,
                 tl (dropWhile (\<lambda>c. c \<noteq> CHR ''.'') coll_spec))
      else None)"

record watch_call =
  watch_db :: string
  watch_coll :: string
  watch_pipeline :: "pyval list"
  watch_options :: pydict

text \<open>
  The loop over the collections. \<open>watch\<close> is the driver's
  \<open>client[db][coll].watch(pipeline, **coll_options)\<close>: it opens a cursor or raises.
  A target that fails (a malformed spec, a failing \<open>watch\<close>) is logged and skipped. The
  result lists the cursors opened with their names, and every call of \<open>watch\<close> with the
  options it was given.
\<close>

fun open_streams ::
  "(watch_call \<Rightarrow> exn + cursor) \<Rightarrow> string list \<Rightarrow> pyval list \<Rightarrow> nat \<Rightarrow> SyncState \<Rightarrow> heap \<Rightarrow>
   (cursor list \<times> string list \<times> watch_call list) \<times> heap" where
  "open_streams watch [] pipeline base_options st h = (([], [], []), h)"
| "open_streams watch (coll_spec # rest) pipeline base_options st h =
     (case split_spec coll_spec of
        None \<Rightarrow> open_streams watch rest pipeline base_options st h
      | Some (db_name, coll_name) \<Rightarrow>
          (case build_options base_options st coll_spec h of (coll_options, h1) \<Rightarrow>
             (let call = \<lparr>watch_db = db_name, watch_coll = coll_name,
                          watch_pipeline = pipeline, watch_options = h1 ! coll_options\<rparr> in
              case open_streams watch rest pipeline base_options st h1 of
                ((ss, names, calls), h2) \<Rightarrow>
                  (case watch call of
                     Inl e \<Rightarrow> ((ss, names, call # calls), h2)
                   | Inr s \<Rightarrow> ((s # ss, coll_spec # names, call # calls), h2)))))"

datatype change_stream = Single single_stream | Multi multi_stream

definition open_change_stream ::
  "(watch_call \<Rightarrow> exn + cursor) \<Rightarrow> string list \<Rightarrow> pyval list \<Rightarrow> nat \<Rightarrow> SyncState \<Rightarrow> heap \<Rightarrow>
   (exn + change_stream) \<times> watch_call list \<times> heap" where
  "open_change_stream watch collections pipeline base_options st h =
     (if collections = [] then (Inl ValueError, [], h)
      else
        (case open_streams watch collections pipeline base_options st h of
           ((ss, names, calls), h') \<Rightarrow>
             (case ss of
                [] \<Rightarrow> (Inl ValueError, calls, h')
              | [s] \<Rightarrow> (Inr (Single \<lparr>stream = s, collection_name = hd names\<rparr>), calls, h')
              | _ \<Rightarrow> (Inr (Multi \<lparr>streams = ss, collection_names = names,
                                   current_index = 0\<rparr>), calls, h'))))"

text \<open>
  Words for the multiplexer: a cursor has a change when its next \<open>try_next\<close> returns a
  document (not \<open>None\<close>, not an exception); probing a cursor is one call of
  \<open>try_next\<close> on it; a multiplexer is advanced by \<open>i\<close> when the \<open>i\<close> cursors from
  its current index on (around the end of the list) have been probed and the index has
  moved past them.
\<close>

definition has_change :: "cursor \<Rightarrow> bool" where
  "has_change c = (case script c of Returns v # _ \<Rightarrow> v \<noteq> PNone | _ \<Rightarrow> False)"

definition next_change :: "cursor \<Rightarrow> pyval" where
  "next_change c = (case script c of Returns v # _ \<Rightarrow> v | _ \<Rightarrow> PNone)"

definition probed :: "cursor \<Rightarrow> cursor" where
  "probed c = snd (cursor_try_next c)"

definition offset :: "multi_stream \<Rightarrow> nat \<Rightarrow> nat" where
  "offset m j = (j + length (streams m) - current_index m) mod length (streams m)"

definition advanced :: "nat \<Rightarrow> multi_stream \<Rightarrow> multi_stream" where
  "advanced i m =
     m\<lparr>current_index := (current_index m + i) mod length (streams m),
       streams := map (\<lambda>j. if offset m j < i then probed (streams m ! j) else streams m ! j)
                    [0..<length (streams m)]\<rparr>"

section \<open>Concrete inputs\<close>

text \<open>The store of a service started with no state file.\<close>

definition fresh_store :: SyncState where
  "fresh_store = \<lparr>state = initial_state, changes_since_persist = 0\<rparr>"

text \<open>An empty directory, and the world of a service started there.\<close>

definition empty_disk :: filesystem where
  "empty_disk = \<lparr>parent_exists = False, state_file = None, temp_files = [], syscalls = []\<rparr>"

definition fresh_world :: world where
  "fresh_world = \<lparr>store = fresh_store, disk = empty_disk\<rparr>"

text \<open>The disk fails at one step; the last one also fails to unlink.\<close>

definition mkdir_fault :: faults where
  "mkdir_fault = no_faults\<lparr>mkdir_error := Some OSError\<rparr>"

definition mkstemp_fault :: faults where
  "mkstemp_fault = no_faults\<lparr>mkstemp_error := Some OSError\<rparr>"

definition write_fault :: faults where
  "write_fault = no_faults\<lparr>write_error := Some OSError\<rparr>"

definition replace_fault :: faults where
  "replace_fault = no_faults\<lparr>replace_error := Some OSError\<rparr>"

definition write_unlink_fault :: faults where
  "write_unlink_fault = no_faults\<lparr>write_error := Some OSError, unlink_fails := True\<rparr>"

text \<open>A world with three changes not yet persisted.\<close>

definition pending_world :: world where
  "pending_world = fresh_world\<lparr>store := fresh_store\<lparr>changes_since_persist := 3\<rparr>\<rparr>"

text \<open>Two updates of the token of one collection, persisted every second change, and
  the targets of an initialisation.\<close>

definition first_update :: store_op where
  "first_update = UpdateResumeToken ''2026-02-05T10:30:00'' ''a.x'' (PDict [(''_data'', PStr ''T1'')]) 2"

definition second_update :: store_op where
  "second_update = UpdateResumeToken ''2026-02-05T10:30:01'' ''a.x'' (PDict [(''_data'', PStr ''T2'')]) 2"

definition two_targets :: "string list" where
  "two_targets = [''a.x'', ''b.y'']"

text \<open>Change events, and targets that answer, refuse one operation or are down.\<close>

definition items_ns :: pyval where
  "items_ns = PDict [(''db'', PStr ''cstest''), (''coll'', PStr ''items'')]"

definition insert_event :: pydict where
  "insert_event =
     [(''operationType'', PStr ''insert''), (''ns'', items_ns),
      (''documentKey'', PDict [(''_id'', PStr ''A'')]),
      (''fullDocument'', PDict [(''_id'', PStr ''A''), (''v'', PInt 1)]),
      (''_id'', PDict [(''_data'', PStr ''TOKEN1'')])]"

definition update_without_document :: pydict where
  "update_without_document =
     [(''operationType'', PStr ''update''), (''ns'', items_ns),
      (''documentKey'', PDict [(''_id'', PStr ''X'')]),
      (''_id'', PDict [(''_data'', PStr ''T2'')])]"

definition invalidate_event :: pydict where
  "invalidate_event =
     [(''operationType'', PStr ''invalidate''), (''ns'', items_ns),
      (''_id'', PDict [(''_data'', PStr ''TI'')])]"

definition rename_event :: pydict where
  "rename_event =
     [(''operationType'', PStr ''rename''), (''ns'', items_ns),
      (''_id'', PDict [(''_data'', PStr ''T3'')])]"

definition no_collection_event :: pydict where
  "no_collection_event =
     [(''operationType'', PStr ''insert''), (''ns'', PDict [(''db'', PStr ''cstest'')]),
      (''documentKey'', PDict [(''_id'', PStr ''A'')]),
      (''fullDocument'', PDict [(''_id'', PStr ''A''), (''v'', PInt 1)])]"

definition target_ok :: target_env where
  "target_ok = \<lparr>handle_error = None, call_error = None\<rparr>"

definition target_refuses :: target_env where
  "target_refuses = \<lparr>handle_error = None, call_error = Some OperationFailure\<rparr>"

definition target_down :: target_env where
  "target_down = \<lparr>handle_error = None, call_error = Some ConnectionFailure\<rparr>"

text \<open>A cursor that raises once, then has one change, then nothing; its close raises.
  A single stream over it.\<close>

definition failing_cursor :: cursor where
  "failing_cursor =
     \<lparr>script = [Raises ConnectionFailure, Returns (PDict insert_event), Returns PNone],
      polls = 0, close_error = Some OperationFailure, close_calls = 0\<rparr>"

definition one_stream :: single_stream where
  "one_stream = \<lparr>stream = failing_cursor, collection_name = ''cstest.items''\<rparr>"

text \<open>Cursors with nothing to read, with an exception pending and with a change
  pending; a multiplexer whose current cursor raises while the next has a change, and one
  where no cursor has a change.\<close>

definition idle_cursor :: cursor where
  "idle_cursor = \<lparr>script = [], polls = 0, close_error = None, close_calls = 0\<rparr>"

definition raising_cursor :: cursor where
  "raising_cursor =
     \<lparr>script = [Raises ConnectionFailure], polls = 0, close_error = None, close_calls = 0\<rparr>"

definition ready_cursor :: cursor where
  "ready_cursor =
     \<lparr>script = [Returns (PDict insert_event)], polls = 0, close_error = None,
      close_calls = 0\<rparr>"

definition three_streams :: multi_stream where
  "three_streams =
     \<lparr>streams = [idle_cursor, raising_cursor, ready_cursor],
      collection_names = [''a.x'', ''b.y'', ''c.z''], current_index = 1\<rparr>"

definition quiet_streams :: multi_stream where
  "quiet_streams =
     \<lparr>streams = [raising_cursor, idle_cursor],
      collection_names = [''a.x'', ''b.y''], current_index = 1\<rparr>"

text \<open>The options \<open>run_sync\<close> passes, a driver that opens every cursor, a store with
  a token for one collection and none for another, and a store whose token is an empty
  dictionary.\<close>

definition run_sync_options :: pydict where
  "run_sync_options =
     [(''batch_size'', PInt 100), (''max_await_time_ms'', PInt 5000),
      (''full_document'', PStr ''updateLookup'')]"

definition always_open :: "watch_call \<Rightarrow> exn + cursor" where
  "always_open call = Inr idle_cursor"

definition token_store :: SyncState where
  "token_store =
     fresh_store\<lparr>state := initial_state
       \<lparr>resume_tokens := [(''a.b'', PDict [(''_data'', PStr ''T1'')]), (''c.d'', PNone)]\<rparr>\<rparr>"

definition empty_token_store :: SyncState where
  "empty_token_store =
     fresh_store\<lparr>state := initial_state\<lparr>resume_tokens := [(''a.b'', PDict [])]\<rparr>\<rparr>"

section \<open>Basic facts\<close>

lemma map_of_dict_set: "map_of (dict_set k v d) = (map_of d)(k \<mapsto> v)"
  by (induction d) (auto simp: fun_eq_iff)

lemma stats_get_bump: "stats_get (bump k stats) k' = (if k' = k then stats_get stats k + 1 else stats_get stats k')"
  by (simp add: stats_get_def bump_def map_of_dict_set)

lemma py_get_Nil: "py_get [] k = PNone"
  by (simp add: py_get_def py_get_default_def)

lemma truthy_not_None: "truthy v \<Longrightarrow> v \<noteq> PNone"
  by auto

section \<open>Document identity\<close>

lemma first_non_null_Cons:
  "first_non_null (v # vs) = (if v = PNone then first_non_null vs else v)"
  by (simp add: first_non_null_def)

lemma first_non_null_Nil: "first_non_null [] = PNone"
  by (simp add: first_non_null_def)

text \<open>What the function computes on a dictionary and an optional document: the
  candidates are tested for truth, not for being null.\<close>

lemma extract_document_id_dict:
  "extract_document_id (PDict dk) (opt_doc fd) =
     Inr (let a = py_get dk ''_id''; b = py_get dk '''';
              c = (case fd of None \<Rightarrow> PNone
                   | Some f \<Rightarrow> if f = [] then PNone else py_get f ''_id'')
          in if truthy a then a
             else if truthy b then b
             else if truthy c then c
             else if dk \<noteq> [] then first_value dk
             else c)"
proof (cases fd)
  case None
  then show ?thesis
    by (simp add: extract_document_id_def opt_doc_def py_or_def Let_def py_get_Nil)
next
  case (Some f)
  then show ?thesis
    by (cases "f = []")
       (simp_all add: extract_document_id_def opt_doc_def py_or_def Let_def attr_get_def
          py_get_Nil)
qed

text \<open>Where no candidate is a non-null value that tests false (\<open>0\<close>, \<open>False\<close>, an empty
  string or container), the function returns what the specification's rule returns.\<close>

lemma extract_document_id_spec_agreement:
  assumes a: "py_get dk ''_id'' = PNone \<or> truthy (py_get dk ''_id'')"
    and b: "py_get dk '''' = PNone \<or> truthy (py_get dk '''')"
    and c: "\<And>f. fd = Some f \<Longrightarrow> py_get f ''_id'' = PNone \<or> truthy (py_get f ''_id'')"
  shows "extract_document_id (PDict dk) (opt_doc fd) = Inr (spec_extract_document_id dk fd)"
proof (cases fd)
  case None
  with a b show ?thesis
    by (auto simp: extract_document_id_dict spec_extract_document_id_def first_non_null_Cons
        first_non_null_Nil first_value_def Let_def dest: truthy_not_None)
next
  case (Some f)
  from c[OF Some] a b Some show ?thesis
    by (cases "f = []")
       (auto simp: extract_document_id_dict spec_extract_document_id_def first_non_null_Cons
        first_non_null_Nil first_value_def Let_def py_get_Nil dest: truthy_not_None)
qed

text \<open>
  Claim C2. The claim reads: for every documentKey and optional fullDocument,
  \<open>extract_document_id\<close> returns the first non-null of \<open>documentKey["_id"]\<close>,
  \<open>documentKey[""]\<close>, \<open>fullDocument["_id"]\<close> and the first value of documentKey, and
  null when none applies. The code tests each candidate for truth. For the document key
  \<open>{"region": "eu", "_id": 0}\<close> of a delete event (no fullDocument) the first non-null
  candidate is the identifier \<open>0\<close>, and the code returns \<open>"eu"\<close>.
\<close>

theorem extract_document_id_falsy_id:
  "extract_document_id (PDict [(''region'', PStr ''eu''), (''_id'', PInt 0)]) PNone
     = Inr (PStr ''eu'')
   \<and> spec_extract_document_id [(''region'', PStr ''eu''), (''_id'', PInt 0)] None = PInt 0"
  by (simp add: extract_document_id_def spec_extract_document_id_def first_non_null_def
      py_or_def py_get_def py_get_default_def first_value_def)

section \<open>Statistics\<close>

text \<open>
  Claim C4. Every call of \<open>record_operation\<close>, for any kind, adds one to
  \<open>total_synced\<close>; the kind \<open>insert\<close> also adds one to \<open>inserts\<close>, the kinds \<open>update\<close>
  and \<open>replace\<close> to \<open>updates\<close>, \<open>delete\<close> to \<open>deletes\<close>, \<open>error\<close> to \<open>errors\<close>, and
  any other kind changes no other counter; in each case every counter not named stays as
  it is, and no counter decreases. Counters are read as the code reads them, a missing
  one as zero.
\<close>

theorem record_operation_counts:
  fixes kind :: string and s :: SyncState
  defines "before \<equiv> stats_get (get_stats s)"
    and "after \<equiv> stats_get (get_stats (record_operation kind s))"
  shows "after ''total_synced'' = before ''total_synced'' + 1
   \<and> (kind = ''insert'' \<longrightarrow> after ''inserts'' = before ''inserts'' + 1
        \<and> (\<forall>k. k \<noteq> ''total_synced'' \<and> k \<noteq> ''inserts'' \<longrightarrow> after k = before k))
   \<and> (kind = ''update'' \<or> kind = ''replace'' \<longrightarrow> after ''updates'' = before ''updates'' + 1
        \<and> (\<forall>k. k \<noteq> ''total_synced'' \<and> k \<noteq> ''updates'' \<longrightarrow> after k = before k))
   \<and> (kind = ''delete'' \<longrightarrow> after ''deletes'' = before ''deletes'' + 1
        \<and> (\<forall>k. k \<noteq> ''total_synced'' \<and> k \<noteq> ''deletes'' \<longrightarrow> after k = before k))
   \<and> (kind = ''error'' \<longrightarrow> after ''errors'' = before ''errors'' + 1
        \<and> (\<forall>k. k \<noteq> ''total_synced'' \<and> k \<noteq> ''errors'' \<longrightarrow> after k = before k))
   \<and> (kind \<notin> {''insert'', ''update'', ''replace'', ''delete'', ''error''} \<longrightarrow>
        (\<forall>k. k \<noteq> ''total_synced'' \<longrightarrow> after k = before k))
   \<and> (\<forall>k. before k \<le> after k)"
  unfolding before_def after_def
  by (simp add: record_operation_def get_stats_def Let_def stats_get_bump)

theorem record_operation_counts_witness:
  "stats_get (get_stats (record_operation ''insert'' fresh_store)) ''total_synced'' = 1
   \<and> stats_get (get_stats (record_operation ''insert'' fresh_store)) ''inserts'' = 1
   \<and> stats_get (get_stats (record_operation ''insert'' fresh_store)) ''updates'' = 0
   \<and> stats_get (get_stats (record_operation ''update'' fresh_store)) ''updates'' = 1
   \<and> stats_get (get_stats (record_operation ''replace'' fresh_store)) ''updates'' = 1
   \<and> stats_get (get_stats (record_operation ''replace'' fresh_store)) ''inserts'' = 0
   \<and> stats_get (get_stats (record_operation ''delete'' fresh_store)) ''deletes'' = 1
   \<and> stats_get (get_stats (record_operation ''error'' fresh_store)) ''errors'' = 1
   \<and> stats_get (get_stats (record_operation ''error'' fresh_store)) ''total_synced'' = 1
   \<and> stats_get (get_stats (record_operation ''drop'' fresh_store)) ''total_synced'' = 1
   \<and> stats_get (get_stats (record_operation ''drop'' fresh_store)) ''errors'' = 0"
proof -
  have z: "stats_get (get_stats fresh_store) k = 0" for k
    by (simp add: stats_get_def get_stats_def fresh_store_def initial_state_def)
  show ?thesis
    using record_operation_counts [of "''insert''" fresh_store]
      record_operation_counts [of "''update''" fresh_store]
      record_operation_counts [of "''replace''" fresh_store]
      record_operation_counts [of "''delete''" fresh_store]
      record_operation_counts [of "''error''" fresh_store]
      record_operation_counts [of "''drop''" fresh_store]
    by (simp add: z)
qed

section \<open>Saving the state\<close>

lemma py_get_dict_set: "py_get (dict_set k v d) k' = (if k' = k then v else py_get d k')"
  by (simp add: py_get_def py_get_default_def map_of_dict_set)

lemma fold_max_ge_init: "(a::nat) \<le> fold max xs a"
proof (induction xs arbitrary: a)
  case Nil
  show ?case by simp
next
  case (Cons x xs)
  have "a \<le> max x a" by simp
  also have "\<dots> \<le> fold max xs (max x a)" by (rule Cons.IH)
  finally show ?case by simp
qed

lemma fold_max_ge_elem: "x \<in> set xs \<Longrightarrow> (x::nat) \<le> fold max xs a"
proof (induction xs arbitrary: a)
  case Nil
  then show ?case by simp
next
  case (Cons y ys)
  show ?case
  proof (cases "x = y")
    case True
    have "x \<le> max y a" using True by simp
    also have "\<dots> \<le> fold max ys (max y a)" by (rule fold_max_ge_init)
    finally show ?thesis by simp
  next
    case False
    with Cons.prems have "x \<in> set ys" by simp
    then show ?thesis using Cons.IH by simp
  qed
qed

lemma fresh_temp_fresh: "fresh_temp ts \<notin> fst ` set ts"
proof
  assume "fresh_temp ts \<in> fst ` set ts"
  then have "fresh_temp ts \<in> set (map fst ts)" by simp
  then have "fresh_temp ts \<le> fold max (map fst ts) 0" by (rule fold_max_ge_elem)
  then show False by (simp add: fresh_temp_def)
qed

lemma dict_del_absent: "k \<notin> fst ` set d \<Longrightarrow> dict_del k d = d"
  by (induction d) (auto simp: dict_del_def)

lemma dict_del_head: "k \<notin> fst ` set d \<Longrightarrow> dict_del k ((k, v) # d) = d"
  using dict_del_absent [of k d] by (simp add: dict_del_def)

lemma save_ok:
  assumes "mkdir_error f = None" "mkstemp_error f = None" "write_error f = None"
    "replace_error f = None"
  shows "save f st fs =
    (Inr (), fs\<lparr>parent_exists := True, state_file := Some (Serialized st),
                syscalls := syscalls fs @ [SysMkdir, SysMkstemp (fresh_temp (temp_files fs)),
                  SysWrite (fresh_temp (temp_files fs)), SysReplace (fresh_temp (temp_files fs))]\<rparr>)"
  using assms fresh_temp_fresh [of "temp_files fs"]
  by (simp add: save_def write_and_replace_def log_call_def Let_def dict_del_head)

lemma save_mkdir_fails:
  assumes "mkdir_error f = Some e"
  shows "save f st fs = (Inl e, fs\<lparr>syscalls := syscalls fs @ [SysMkdir]\<rparr>)"
  using assms by (simp add: save_def log_call_def Let_def)

lemma save_mkstemp_fails:
  assumes "mkdir_error f = None" "mkstemp_error f = Some e"
  shows "save f st fs =
    (Inl e, fs\<lparr>parent_exists := True,
               syscalls := syscalls fs @ [SysMkdir, SysMkstemp (fresh_temp (temp_files fs))]\<rparr>)"
  using assms by (simp add: save_def log_call_def Let_def)

lemma save_write_fails:
  assumes "mkdir_error f = None" "mkstemp_error f = None" "write_error f = Some e"
  shows "save f st fs =
    (Inl e, fs\<lparr>parent_exists := True,
               temp_files := (if unlink_fails f
                              then (fresh_temp (temp_files fs), Truncated) # temp_files fs
                              else temp_files fs),
               syscalls := syscalls fs @ [SysMkdir, SysMkstemp (fresh_temp (temp_files fs)),
                 SysWrite (fresh_temp (temp_files fs)), SysUnlink (fresh_temp (temp_files fs))]\<rparr>)"
  using assms fresh_temp_fresh [of "temp_files fs"]
  by (simp add: save_def write_and_replace_def unlink_temp_def log_call_def Let_def dict_del_head)

lemma save_replace_fails:
  assumes "mkdir_error f = None" "mkstemp_error f = None" "write_error f = None"
    "replace_error f = Some e"
  shows "save f st fs =
    (Inl e, fs\<lparr>parent_exists := True,
               temp_files := (if unlink_fails f
                              then (fresh_temp (temp_files fs), Serialized st) # temp_files fs
                              else temp_files fs),
               syscalls := syscalls fs @ [SysMkdir, SysMkstemp (fresh_temp (temp_files fs)),
                 SysWrite (fresh_temp (temp_files fs)), SysReplace (fresh_temp (temp_files fs)),
                 SysUnlink (fresh_temp (temp_files fs))]\<rparr>)"
  using assms fresh_temp_fresh [of "temp_files fs"]
  by (simp add: save_def write_and_replace_def unlink_temp_def log_call_def Let_def dict_del_head)

lemma save_cases:
  obtains (ok) "mkdir_error f = None" "mkstemp_error f = None" "write_error f = None"
      "replace_error f = None"
  | (mkd) e where "mkdir_error f = Some e"
  | (mks) e where "mkdir_error f = None" "mkstemp_error f = Some e"
  | (wr) e where "mkdir_error f = None" "mkstemp_error f = None" "write_error f = Some e"
  | (repl) e where "mkdir_error f = None" "mkstemp_error f = None" "write_error f = None"
      "replace_error f = Some e"
  by (cases "mkdir_error f"; cases "mkstemp_error f"; cases "write_error f";
      cases "replace_error f") auto

lemma save_Inr_state_file:
  assumes "save f st fs = (Inr u, fs')"
  shows "state_file fs' = Some (Serialized st)"
  using assms
  by (cases f rule: save_cases)
     (auto simp: save_ok save_mkdir_fails save_mkstemp_fails save_write_fails save_replace_fails)

lemma save_Inl_state_file:
  assumes "save f st fs = (Inl e, fs')"
  shows "state_file fs' = state_file fs"
  using assms
  by (cases f rule: save_cases)
     (auto simp: save_ok save_mkdir_fails save_mkstemp_fails save_write_fails save_replace_fails)

lemma fresh_temp_Nil: "fresh_temp [] = Suc 0"
  by (simp add: fresh_temp_def)

text \<open>
  Claim C5, as amended. \<open>_save\<close> makes the parent directory, creates a temporary file
  there under a name no file of the directory has, writes the whole serialized state to
  it, and renames it onto the state file: these are the only calls, in this order, and
  no \<open>fsync\<close> stands between the write and the rename. When a step fails, the exception
  of that step propagates and the state file keeps the content it had, so it is never
  left truncated; after a failed write or rename the temporary file is unlinked, and it
  is gone when the unlink succeeds (a failing unlink is passed over). A failure of
  \<open>mkdir\<close> or \<open>mkstemp\<close> leaves no temporary file to delete.
\<close>

theorem save_atomic_write:
  fixes f :: faults and st :: sync_state and fs :: filesystem
  defines "t \<equiv> fresh_temp (temp_files fs)" and "r \<equiv> save f st fs"
  shows "t \<notin> fst ` set (temp_files fs)
   \<and> (mkdir_error f = None \<and> mkstemp_error f = None \<and> write_error f = None
        \<and> replace_error f = None \<longrightarrow>
          fst r = Inr () \<and> state_file (snd r) = Some (Serialized st)
          \<and> temp_files (snd r) = temp_files fs \<and> parent_exists (snd r)
          \<and> syscalls (snd r) = syscalls fs @ [SysMkdir, SysMkstemp t, SysWrite t, SysReplace t])
   \<and> (\<forall>e. mkdir_error f = Some e \<longrightarrow>
          fst r = Inl e \<and> state_file (snd r) = state_file fs
          \<and> temp_files (snd r) = temp_files fs
          \<and> syscalls (snd r) = syscalls fs @ [SysMkdir])
   \<and> (\<forall>e. mkdir_error f = None \<and> mkstemp_error f = Some e \<longrightarrow>
          fst r = Inl e \<and> state_file (snd r) = state_file fs
          \<and> temp_files (snd r) = temp_files fs
          \<and> syscalls (snd r) = syscalls fs @ [SysMkdir, SysMkstemp t])
   \<and> (\<forall>e. mkdir_error f = None \<and> mkstemp_error f = None \<and> write_error f = Some e \<longrightarrow>
          fst r = Inl e \<and> state_file (snd r) = state_file fs
          \<and> syscalls (snd r) = syscalls fs @ [SysMkdir, SysMkstemp t, SysWrite t, SysUnlink t]
          \<and> (\<not> unlink_fails f \<longrightarrow> temp_files (snd r) = temp_files fs))
   \<and> (\<forall>e. mkdir_error f = None \<and> mkstemp_error f = None \<and> write_error f = None
          \<and> replace_error f = Some e \<longrightarrow>
          fst r = Inl e \<and> state_file (snd r) = state_file fs
          \<and> syscalls (snd r) =
              syscalls fs @ [SysMkdir, SysMkstemp t, SysWrite t, SysReplace t, SysUnlink t]
          \<and> (\<not> unlink_fails f \<longrightarrow> temp_files (snd r) = temp_files fs))
   \<and> (state_file fs \<noteq> Some Truncated \<longrightarrow> state_file (snd r) \<noteq> Some Truncated)"
proof -
  have fresh: "t \<notin> fst ` set (temp_files fs)"
    unfolding t_def by (rule fresh_temp_fresh)
  have rest: ?thesis if "t \<notin> fst ` set (temp_files fs)"
    using that unfolding t_def r_def
    by (cases f rule: save_cases)
       (simp_all add: save_ok save_mkdir_fails save_mkstemp_fails save_write_fails
          save_replace_fails)
  from fresh show ?thesis by (rule rest)
qed

theorem save_atomic_write_witness:
  "fst (save no_faults initial_state empty_disk) = Inr ()
   \<and> state_file (snd (save no_faults initial_state empty_disk)) = Some (Serialized initial_state)
   \<and> temp_files (snd (save no_faults initial_state empty_disk)) = []
   \<and> syscalls (snd (save no_faults initial_state empty_disk)) =
       [SysMkdir, SysMkstemp (Suc 0), SysWrite (Suc 0), SysReplace (Suc 0)]
   \<and> fst (save mkdir_fault initial_state empty_disk) = Inl OSError
   \<and> state_file (snd (save mkdir_fault initial_state empty_disk)) = None
   \<and> syscalls (snd (save mkdir_fault initial_state empty_disk)) = [SysMkdir]
   \<and> fst (save mkstemp_fault initial_state empty_disk) = Inl OSError
   \<and> temp_files (snd (save mkstemp_fault initial_state empty_disk)) = []
   \<and> fst (save write_fault initial_state empty_disk) = Inl OSError
   \<and> state_file (snd (save write_fault initial_state empty_disk)) = None
   \<and> temp_files (snd (save write_fault initial_state empty_disk)) = []
   \<and> syscalls (snd (save write_fault initial_state empty_disk)) =
       [SysMkdir, SysMkstemp (Suc 0), SysWrite (Suc 0), SysUnlink (Suc 0)]
   \<and> fst (save replace_fault initial_state empty_disk) = Inl OSError
   \<and> state_file (snd (save replace_fault initial_state empty_disk)) = None
   \<and> temp_files (snd (save replace_fault initial_state empty_disk)) = []
   \<and> syscalls (snd (save replace_fault initial_state empty_disk)) =
       [SysMkdir, SysMkstemp (Suc 0), SysWrite (Suc 0), SysReplace (Suc 0), SysUnlink (Suc 0)]"
  using save_atomic_write [of empty_disk no_faults initial_state]
    save_atomic_write [of empty_disk mkdir_fault initial_state]
    save_atomic_write [of empty_disk mkstemp_fault initial_state]
    save_atomic_write [of empty_disk write_fault initial_state]
    save_atomic_write [of empty_disk replace_fault initial_state]
  by (simp add: no_faults_def mkdir_fault_def mkstemp_fault_def write_fault_def
      replace_fault_def empty_disk_def fresh_temp_Nil)

text \<open>
  The claim as it stands fails in two places. A save with no failure issues four calls,
  none of them an \<open>fsync\<close> of the file written. And when the write fails and the unlink
  of the handler fails too, the exception propagates with the temporary file left in the
  directory.
\<close>

theorem save_fsync_counterexample:
  "fst (save no_faults initial_state empty_disk) = Inr ()
   \<and> syscalls (snd (save no_faults initial_state empty_disk)) =
       [SysMkdir, SysMkstemp (Suc 0), SysWrite (Suc 0), SysReplace (Suc 0)]
   \<and> SysFsync (Suc 0) \<notin> set (syscalls (snd (save no_faults initial_state empty_disk)))
   \<and> fst (save write_unlink_fault initial_state empty_disk) = Inl OSError
   \<and> temp_files (snd (save write_unlink_fault initial_state empty_disk)) = [(Suc 0, Truncated)]"
  by (simp add: save_ok save_write_fails no_faults_def write_unlink_fault_def empty_disk_def
      fresh_temp_Nil)

section \<open>Persisting\<close>

lemma persist_Inr:
  assumes "persist f w = (Inr u, w')"
  shows "store w' = (store w)\<lparr>changes_since_persist := 0\<rparr>"
    and "state_file (disk w') = Some (Serialized (state (store w)))"
proof -
  obtain r fs where s: "save f (state (store w)) (disk w) = (r, fs)"
    by (cases "save f (state (store w)) (disk w)")
  with assms obtain u' where r: "r = Inr u'"
    by (cases r) (auto simp: persist_def)
  from assms s r show "store w' = (store w)\<lparr>changes_since_persist := 0\<rparr>"
    by (auto simp: persist_def)
  from assms s r have "disk w' = fs"
    by (auto simp: persist_def)
  with s r show "state_file (disk w') = Some (Serialized (state (store w)))"
    using save_Inr_state_file by blast
qed

lemma persist_Inl:
  assumes "persist f w = (Inl e, w')"
  shows "store w' = store w" and "state_file (disk w') = state_file (disk w)"
proof -
  obtain r fs where s: "save f (state (store w)) (disk w) = (r, fs)"
    by (cases "save f (state (store w)) (disk w)")
  with assms have r: "r = Inl e"
    by (cases r) (auto simp: persist_def)
  from assms s r show "store w' = store w"
    by (auto simp: persist_def)
  from assms s r have "disk w' = fs"
    by (auto simp: persist_def)
  with s r show "state_file (disk w') = state_file (disk w)"
    using save_Inl_state_file by blast
qed

lemma persist_state: "state (store (snd (persist f w))) = state (store w)"
proof (cases "persist f w")
  case (Pair r w')
  then show ?thesis
    by (cases r) (auto dest: persist_Inl persist_Inr)
qed

lemma persist_no_faults: "fst (persist no_faults w) = Inr ()"
  by (simp add: persist_def save_ok no_faults_def)

lemma flush_if_pending_idle:
  "changes_since_persist (store w) = 0 \<Longrightarrow> flush_if_pending f w = (Inr (), w)"
  by (simp add: flush_if_pending_def)

lemma update_resume_token_Inr:
  assumes "update_resume_token f now c t k w = (Inr u, w')"
    and "k \<le> changes_since_persist (store w) + 1"
  shows "changes_since_persist (store w') = 0"
    and "state_file (disk w') = Some (Serialized (state (store w')))"
proof -
  define w1 where "w1 = w\<lparr>store := (store w)\<lparr>state := (state (store w))
      \<lparr>resume_tokens := dict_set c t (resume_tokens (state (store w))),
       last_sync_time := PStr (now @ ''Z'')\<rparr>,
      changes_since_persist := changes_since_persist (store w) + 1\<rparr>\<rparr>"
  obtain r w2 where p: "persist f w1 = (r, w2)"
    by (cases "persist f w1")
  from assms p obtain u' where r: "r = Inr u'"
    by (cases r) (auto simp: update_resume_token_def Let_def w1_def)
  from assms p r have w': "w' = w2\<lparr>store := (store w2)\<lparr>changes_since_persist := 0\<rparr>\<rparr>"
    by (auto simp: update_resume_token_def Let_def w1_def)
  show "changes_since_persist (store w') = 0"
    by (simp add: w')
  from p r have "store w2 = (store w1)\<lparr>changes_since_persist := 0\<rparr>"
    and "state_file (disk w2) = Some (Serialized (state (store w1)))"
    by (auto dest: persist_Inr)
  then show "state_file (disk w') = Some (Serialized (state (store w')))"
    by (simp add: w')
qed

lemma init_collections_Inr:
  assumes "init_collections f colls w = (Inr u, w')"
  shows "changes_since_persist (store w') = 0"
    and "state_file (disk w') = Some (Serialized (state (store w')))"
    and "resume_tokens (state (store w')) = init_tokens colls (resume_tokens (state (store w)))"
    and "last_sync_time (state (store w')) = last_sync_time (state (store w))"
    and "sync_stats (state (store w')) = sync_stats (state (store w))"
proof -
  define w0 where "w0 = w\<lparr>store := (store w)\<lparr>state := (state (store w))
      \<lparr>resume_tokens := init_tokens colls (resume_tokens (state (store w)))\<rparr>\<rparr>\<rparr>"
  from assms have p: "persist f w0 = (Inr u, w')"
    by (simp add: init_collections_def w0_def)
  have s: "store w' = (store w0)\<lparr>changes_since_persist := 0\<rparr>"
    and d: "state_file (disk w') = Some (Serialized (state (store w0)))"
    using persist_Inr [OF p] by auto
  show "changes_since_persist (store w') = 0"
    by (simp add: s)
  show "state_file (disk w') = Some (Serialized (state (store w')))"
    by (simp add: s d)
  show "resume_tokens (state (store w')) = init_tokens colls (resume_tokens (state (store w)))"
    by (simp add: s w0_def)
  show "last_sync_time (state (store w')) = last_sync_time (state (store w))"
    by (simp add: s w0_def)
  show "sync_stats (state (store w')) = sync_stats (state (store w))"
    by (simp add: s w0_def)
qed

text \<open>
  Claim C10. Whenever \<open>persist\<close> returns normally, called directly, from
  \<open>init_collections\<close>, from \<open>update_resume_token\<close> on reaching the interval, or from
  \<open>flush_if_pending\<close> with pending changes, the counter of changes since the last persist is
  zero when the caller returns; a \<open>flush_if_pending\<close> that follows returns with the world
  as it was: the store, the files and the list of system calls are the same, whatever
  faults the disk would show. This holds in every state of the store.
\<close>

theorem persist_resets_counter:
  "(\<forall>w'. persist f w = (Inr (), w') \<longrightarrow>
      changes_since_persist (store w') = 0 \<and> flush_if_pending f' w' = (Inr (), w'))
   \<and> (\<forall>w'. init_collections f colls w = (Inr (), w') \<longrightarrow>
      changes_since_persist (store w') = 0 \<and> flush_if_pending f' w' = (Inr (), w'))
   \<and> (\<forall>w'. k \<le> changes_since_persist (store w) + 1
          \<and> update_resume_token f now c t k w = (Inr (), w') \<longrightarrow>
      changes_since_persist (store w') = 0 \<and> flush_if_pending f' w' = (Inr (), w'))
   \<and> (\<forall>w'. 0 < changes_since_persist (store w) \<and> flush_if_pending f w = (Inr (), w') \<longrightarrow>
      changes_since_persist (store w') = 0 \<and> flush_if_pending f' w' = (Inr (), w'))"
proof -
  have a: "changes_since_persist (store w') = 0" if "persist f w = (Inr (), w')" for w w'
    using persist_Inr(1) [OF that] by simp
  have b: "changes_since_persist (store w') = 0"
    if "init_collections f colls w = (Inr (), w')" for w'
    using that by (rule init_collections_Inr(1))
  have c: "changes_since_persist (store w') = 0"
    if "k \<le> changes_since_persist (store w) + 1"
      "update_resume_token f now c t k w = (Inr (), w')" for w'
    using that(2,1) by (rule update_resume_token_Inr(1))
  have d: "changes_since_persist (store w') = 0"
    if "0 < changes_since_persist (store w)" "flush_if_pending f w = (Inr (), w')" for w'
    using that a by (simp add: flush_if_pending_def)
  have e: "flush_if_pending f' w' = (Inr (), w')" if "changes_since_persist (store w') = 0" for w'
    using that by (rule flush_if_pending_idle)
  show ?thesis
  proof (intro conjI allI impI)
    fix w' assume "persist f w = (Inr (), w')"
    then show "changes_since_persist (store w') = 0" by (rule a)
    then show "flush_if_pending f' w' = (Inr (), w')" by (rule e)
  next
    fix w' assume "init_collections f colls w = (Inr (), w')"
    then show "changes_since_persist (store w') = 0" by (rule b)
    then show "flush_if_pending f' w' = (Inr (), w')" by (rule e)
  next
    fix w' assume h: "k \<le> changes_since_persist (store w) + 1
          \<and> update_resume_token f now c t k w = (Inr (), w')"
    then show "changes_since_persist (store w') = 0" using c by blast
    then show "flush_if_pending f' w' = (Inr (), w')" by (rule e)
  next
    fix w' assume h: "0 < changes_since_persist (store w) \<and> flush_if_pending f w = (Inr (), w')"
    then show "changes_since_persist (store w') = 0" using d by blast
    then show "flush_if_pending f' w' = (Inr (), w')" by (rule e)
  qed
qed

lemma result_pair: "fst x = a \<Longrightarrow> x = (a, snd x)"
  by (cases x) simp

lemma init_collections_no_faults: "fst (init_collections no_faults colls w) = Inr ()"
  by (simp add: init_collections_def persist_no_faults)

lemma flush_if_pending_no_faults: "fst (flush_if_pending no_faults w) = Inr ()"
  by (simp add: flush_if_pending_def persist_no_faults)

lemma update_resume_token_no_faults: "fst (update_resume_token no_faults now c t k w) = Inr ()"
proof -
  have "fst (case persist no_faults w1 of (Inl e, w2) \<Rightarrow> (Inl e, w2)
             | (Inr u, w2) \<Rightarrow> (Inr (), g w2)) = Inr ()" for w1 and g :: "world \<Rightarrow> world"
    using persist_no_faults [of w1]
    by (cases "persist no_faults w1") (auto split: sum.splits)
  then show ?thesis
    by (simp add: update_resume_token_def Let_def)
qed

theorem persist_resets_counter_witness:
  "changes_since_persist (store (snd (persist no_faults pending_world))) = 0
   \<and> flush_if_pending write_fault (snd (persist no_faults pending_world)) =
       (Inr (), snd (persist no_faults pending_world))
   \<and> changes_since_persist (store (snd (init_collections no_faults [''a.x''] pending_world))) = 0
   \<and> flush_if_pending write_fault (snd (init_collections no_faults [''a.x''] pending_world)) =
       (Inr (), snd (init_collections no_faults [''a.x''] pending_world))
   \<and> 4 \<le> changes_since_persist (store pending_world) + 1
   \<and> changes_since_persist (store (snd (update_resume_token no_faults ''t'' ''a.x'' (PStr ''T1'') 4
        pending_world))) = 0
   \<and> flush_if_pending write_fault
        (snd (update_resume_token no_faults ''t'' ''a.x'' (PStr ''T1'') 4 pending_world)) =
       (Inr (), snd (update_resume_token no_faults ''t'' ''a.x'' (PStr ''T1'') 4 pending_world))
   \<and> 0 < changes_since_persist (store pending_world)
   \<and> changes_since_persist (store (snd (flush_if_pending no_faults pending_world))) = 0
   \<and> flush_if_pending write_fault (snd (flush_if_pending no_faults pending_world)) =
       (Inr (), snd (flush_if_pending no_faults pending_world))"
proof -
  have c: "changes_since_persist (store pending_world) = 3"
    by (simp add: pending_world_def)
  note p = result_pair [OF persist_no_faults [of pending_world]]
    result_pair [OF init_collections_no_faults [of "[''a.x'']" pending_world]]
    result_pair [OF update_resume_token_no_faults [of "''t''" "''a.x''" "PStr ''T1''" 4 pending_world]]
    result_pair [OF flush_if_pending_no_faults [of pending_world]]
  show ?thesis
    using persist_resets_counter [of no_faults pending_world write_fault "[''a.x'']" 4
        "''t''" "''a.x''" "PStr ''T1''"] p c
    by simp
qed

section \<open>Resume tokens\<close>

lemma py_get_init_tokens: "py_get (init_tokens colls tokens) c = py_get tokens c"
proof (induction colls arbitrary: tokens)
  case Nil
  show ?case by simp
next
  case (Cons coll colls)
  have "py_get (dict_set coll PNone tokens) c = py_get tokens c" if "map_of tokens coll = None"
    using that by (simp add: py_get_dict_set) (simp add: py_get_def py_get_default_def)
  then show ?case
    by (simp add: Cons.IH)
qed

lemma map_of_init_tokens:
  "map_of (init_tokens colls tokens) c =
     (if c \<in> set colls \<and> map_of tokens c = None then Some PNone else map_of tokens c)"
proof (induction colls arbitrary: tokens)
  case Nil
  show ?case by simp
next
  case (Cons coll colls)
  show ?case
    by (simp add: Cons.IH map_of_dict_set)
qed

lemma init_tokens_present:
  "\<forall>c \<in> set colls. map_of tokens c \<noteq> None \<Longrightarrow> init_tokens colls tokens = tokens"
  by (induction colls arbitrary: tokens) auto

lemma init_tokens_idem: "init_tokens colls (init_tokens colls tokens) = init_tokens colls tokens"
  by (rule init_tokens_present) (simp add: map_of_init_tokens)

lemma persist_tokens:
  "get_resume_token (store (snd (persist f w))) c = get_resume_token (store w) c"
  by (simp add: get_resume_token_def persist_state)

lemma update_resume_token_state:
  "state (store (snd (update_resume_token f now c t k w))) =
     (state (store w))\<lparr>resume_tokens := dict_set c t (resume_tokens (state (store w))),
                       last_sync_time := PStr (now @ ''Z'')\<rparr>"
proof -
  have "state (store (snd (case persist f w1 of (Inl e, w2) \<Rightarrow> (Inl e, w2)
             | (Inr u, w2) \<Rightarrow> (Inr (), w2\<lparr>store := (store w2)\<lparr>changes_since_persist := 0\<rparr>\<rparr>))))
        = state (store w1)" for w1
    using persist_state [of f w1]
    by (cases "persist f w1") (auto split: sum.splits)
  then show ?thesis
    by (simp add: update_resume_token_def Let_def)
qed

lemma apply_op_token:
  "get_resume_token (store (snd (apply_op f operation w))) c =
     (case operation of
        UpdateResumeToken now c' t k \<Rightarrow> if c' = c then t else get_resume_token (store w) c
      | _ \<Rightarrow> get_resume_token (store w) c)"
proof (cases operation)
  case (UpdateResumeToken now c' t k)
  then show ?thesis
    by (simp add: get_resume_token_def update_resume_token_state py_get_dict_set)
next
  case (RecordOperation kind)
  then show ?thesis
    by (simp add: get_resume_token_def record_operation_def Let_def)
next
  case FlushIfPending
  then show ?thesis
    by (simp add: flush_if_pending_def persist_tokens)
next
  case Persist
  then show ?thesis
    by (simp add: persist_tokens)
next
  case (InitCollections colls)
  then show ?thesis
    by (simp add: init_collections_def persist_tokens)
       (simp add: get_resume_token_def py_get_init_tokens)
qed

lemma run_token:
  "get_resume_token (store (run ops w)) c =
     (case latest_token c (map snd ops) of
        Some t \<Rightarrow> t
      | None \<Rightarrow> get_resume_token (store w) c)"
proof (induction ops arbitrary: w)
  case Nil
  show ?case by simp
next
  case (Cons fo ops)
  obtain f operation where fo: "fo = (f, operation)"
    by (cases fo)
  show ?case
    using apply_op_token [of f operation w c]
    by (cases operation)
       (simp_all add: fo Cons.IH split: option.splits)
qed

lemma run_snoc: "run (ops @ [(f, operation)]) w = snd (apply_op f operation (run ops w))"
  by (induction ops arbitrary: w) auto

lemma flushes_in_sync:
  assumes "apply_op f operation w = (Inr u, w')" and "flushes operation w"
  shows "state_file (disk w') = Some (Serialized (state (store w')))"
proof (cases operation)
  case (UpdateResumeToken now c t k)
  with assms show ?thesis
    using update_resume_token_Inr(2) [of f now c t k w u w'] by simp
next
  case (RecordOperation kind)
  with assms show ?thesis by simp
next
  case FlushIfPending
  with assms have "persist f w = (Inr u, w')"
    by (simp add: flush_if_pending_def)
  then show ?thesis
    using persist_Inr [of f w u w'] by simp
next
  case Persist
  with assms have "persist f w = (Inr u, w')" by simp
  then show ?thesis
    using persist_Inr [of f w u w'] by simp
next
  case (InitCollections colls)
  with assms show ?thesis
    using init_collections_Inr(2) [of f colls w u w'] by simp
qed

lemma on_disk_token_in_sync:
  "state_file fs = Some (Serialized st) \<Longrightarrow> on_disk_token fs c = py_get (resume_tokens st) c"
  by (simp add: on_disk_token_def new_SyncState_def load_def get_resume_token_def)

text \<open>
  Claim C1. Take any history of calls on the state store (updates of resume tokens with
  any intervals, recorded operations, flushes, persists, initialisations), from any
  starting world and under any faults of the disk, and a call after it that flushes the
  state to disk (the counter reaching the interval, \<open>flush_if_pending\<close> with pending
  changes, an explicit persist) and returns normally. If a token was supplied for a
  collection so far, the token a restart reads from the disk for that collection is the
  one supplied last, and \<open>get_resume_token\<close> returns the same token in memory.
\<close>

theorem flushed_token_is_latest:
  assumes "apply_op f operation (run ops w0) = (Inr (), w')"
    and "flushes operation (run ops w0)"
    and "latest_token c (map snd ops @ [operation]) = Some t"
  shows "on_disk_token (disk w') c = t \<and> get_resume_token (store w') c = t"
proof -
  have w': "w' = run (ops @ [(f, operation)]) w0"
    using assms(1) by (simp add: run_snoc)
  have m: "get_resume_token (store w') c = t"
    unfolding w' using assms(3) by (simp add: run_token)
  have "state_file (disk w') = Some (Serialized (state (store w')))"
    using assms(1,2) by (rule flushes_in_sync)
  then have "on_disk_token (disk w') c = get_resume_token (store w') c"
    by (simp add: on_disk_token_in_sync get_resume_token_def)
  with m show ?thesis by simp
qed

lemma flushes_no_faults: "fst (apply_op no_faults operation w) = Inr ()"
  by (cases operation)
     (simp_all add: update_resume_token_no_faults flush_if_pending_no_faults persist_no_faults
        init_collections_no_faults)

theorem flushed_token_is_latest_witness:
  "fst (apply_op no_faults second_update (run [(write_fault, first_update)] fresh_world)) = Inr ()
   \<and> flushes second_update (run [(write_fault, first_update)] fresh_world)
   \<and> latest_token ''a.x'' (map snd [(write_fault, first_update)] @ [second_update])
       = Some (PDict [(''_data'', PStr ''T2'')])
   \<and> on_disk_token
        (disk (snd (apply_op no_faults second_update (run [(write_fault, first_update)] fresh_world))))
        ''a.x'' = PDict [(''_data'', PStr ''T2'')]
   \<and> get_resume_token
        (store (snd (apply_op no_faults second_update (run [(write_fault, first_update)] fresh_world))))
        ''a.x'' = PDict [(''_data'', PStr ''T2'')]"
proof -
  let ?w = "run [(write_fault, first_update)] fresh_world"
  have a: "apply_op no_faults second_update ?w = (Inr (), snd (apply_op no_faults second_update ?w))"
    by (rule result_pair) (rule flushes_no_faults)
  have c: "changes_since_persist (store ?w) = 1"
    by (simp add: first_update_def update_resume_token_def Let_def fresh_world_def
        fresh_store_def)
  have b: "flushes second_update ?w"
    using c by (simp add: second_update_def)
  have l: "latest_token ''a.x'' (map snd [(write_fault, first_update)] @ [second_update])
       = Some (PDict [(''_data'', PStr ''T2'')])"
    by (simp add: first_update_def second_update_def)
  have r: "fst (apply_op no_faults second_update ?w) = Inr ()"
    by (rule flushes_no_faults)
  show ?thesis
    using flushed_token_is_latest [OF a b l] r b l by simp
qed

lemma init_collections_state:
  "state (store (snd (init_collections f colls w))) =
     (state (store w))\<lparr>resume_tokens := init_tokens colls (resume_tokens (state (store w)))\<rparr>"
  by (simp add: init_collections_def persist_state)

lemma store_counter_zero:
  "changes_since_persist s = 0 \<Longrightarrow> s\<lparr>changes_since_persist := 0\<rparr> = s"
  by (cases s) simp

lemma persist_idle:
  assumes "changes_since_persist (store w) = 0"
    and "state_file (disk w) = Some (Serialized (state (store w)))"
  shows "store (snd (persist f w)) = store w"
    and "state_file (disk (snd (persist f w))) = state_file (disk w)"
proof -
  obtain r w2 where p: "persist f w = (r, w2)"
    by (cases "persist f w")
  show "store (snd (persist f w)) = store w"
  proof (cases r)
    case (Inl e)
    with p show ?thesis using persist_Inl(1) [of f w e w2] by simp
  next
    case (Inr u)
    with p show ?thesis
      using persist_Inr(1) [of f w u w2] assms(1) by (simp add: store_counter_zero)
  qed
  show "state_file (disk (snd (persist f w))) = state_file (disk w)"
  proof (cases r)
    case (Inl e)
    with p show ?thesis using persist_Inl(2) [of f w e w2] by simp
  next
    case (Inr u)
    with p show ?thesis
      using persist_Inr(2) [of f w u w2] assms(2) by simp
  qed
qed

lemma init_collections_again:
  assumes "\<forall>c \<in> set colls. map_of (resume_tokens (state (store w))) c \<noteq> None"
  shows "init_collections f colls w = persist f w"
  using init_tokens_present [OF assms] by (simp add: init_collections_def)

text \<open>
  Claim C6. After a call of \<open>init_collections\<close> that returns, the token map has an entry
  for every target: null for a target that had none, and every entry it had before is as
  it was (no other key is added, the time stamp and the statistics are untouched); the
  state file holds the state in memory. A second call with the same targets, whatever the
  disk does during it, leaves the store in memory and the content of the state file as
  they are.
\<close>

theorem init_collections_idempotent:
  assumes "init_collections f targets w = (Inr (), w')"
  shows "(\<forall>t \<in> set targets. map_of (resume_tokens (state (store w'))) t \<noteq> None)
   \<and> (\<forall>c. map_of (resume_tokens (state (store w'))) c =
          (if c \<in> set targets \<and> map_of (resume_tokens (state (store w))) c = None
           then Some PNone else map_of (resume_tokens (state (store w))) c))
   \<and> last_sync_time (state (store w')) = last_sync_time (state (store w))
   \<and> sync_stats (state (store w')) = sync_stats (state (store w))
   \<and> state_file (disk w') = Some (Serialized (state (store w')))
   \<and> (\<forall>f2. store (snd (init_collections f2 targets w')) = store w'
          \<and> state_file (disk (snd (init_collections f2 targets w'))) = state_file (disk w'))"
proof -
  note r = init_collections_Inr [OF assms]
  have toks: "map_of (resume_tokens (state (store w'))) c =
          (if c \<in> set targets \<and> map_of (resume_tokens (state (store w))) c = None
           then Some PNone else map_of (resume_tokens (state (store w))) c)" for c
    by (simp add: r(3) map_of_init_tokens)
  have present: "\<forall>t \<in> set targets. map_of (resume_tokens (state (store w'))) t \<noteq> None"
    by (simp add: toks)
  have again: "init_collections f2 targets w' = persist f2 w'" for f2
    using present by (rule init_collections_again)
  have second: "store (snd (init_collections f2 targets w')) = store w'
      \<and> state_file (disk (snd (init_collections f2 targets w'))) = state_file (disk w')" for f2
    unfolding again using persist_idle [OF r(1) r(2)] by simp
  from present toks r(4) r(5) r(2) second show ?thesis
    by blast
qed

theorem init_collections_idempotent_witness:
  "fst (init_collections no_faults two_targets fresh_world) = Inr ()
   \<and> resume_tokens (state (store (snd (init_collections no_faults two_targets fresh_world))))
       = [(''a.x'', PNone), (''b.y'', PNone)]
   \<and> state_file (disk (snd (init_collections no_faults two_targets fresh_world)))
       = Some (Serialized (initial_state\<lparr>resume_tokens := [(''a.x'', PNone), (''b.y'', PNone)]\<rparr>))
   \<and> store (snd (init_collections write_fault two_targets
        (snd (init_collections no_faults two_targets fresh_world))))
       = store (snd (init_collections no_faults two_targets fresh_world))
   \<and> state_file (disk (snd (init_collections no_faults two_targets
        (snd (init_collections no_faults two_targets fresh_world)))))
       = state_file (disk (snd (init_collections no_faults two_targets fresh_world)))"
proof -
  let ?w = "snd (init_collections no_faults two_targets fresh_world)"
  have a: "init_collections no_faults two_targets fresh_world = (Inr (), ?w)"
    by (rule result_pair) (rule init_collections_no_faults)
  have s: "state (store ?w) = initial_state\<lparr>resume_tokens := [(''a.x'', PNone), (''b.y'', PNone)]\<rparr>"
    by (simp add: init_collections_state two_targets_def fresh_world_def fresh_store_def
        initial_state_def)
  have r: "fst (init_collections no_faults two_targets fresh_world) = Inr ()"
    by (rule init_collections_no_faults)
  show ?thesis
    using init_collections_idempotent [OF a] r s by simp
qed

section \<open>Applying change events\<close>

lemma upsert_document_cases:
  "upsert_document env kind db coll dk change tgt st = (r, tgt', st') \<Longrightarrow>
     (r = Inr True \<and> tgt' = tgt \<and> st' = st \<and> \<not> truthy (py_get change ''fullDocument''))
     \<or> (r = Inr True \<and> (\<exists>call. tgt' = tgt @ [call]) \<and> st' = record_operation kind st
          \<and> call_error env = None \<and> truthy (py_get change ''fullDocument''))
     \<or> (r = Inl AttributeError \<and> tgt' = tgt \<and> st' = st \<and> truthy (py_get change ''fullDocument''))
     \<or> (\<exists>e. r = Inl e \<and> call_error env = Some e \<and> (\<exists>call. tgt' = tgt @ [call]) \<and> st' = st
          \<and> truthy (py_get change ''fullDocument''))"
  unfolding upsert_document_def Let_def extract_document_id_def attr_get_def
  by (auto split: pyval.splits sum.splits option.splits if_splits)

lemma delete_document_cases:
  "delete_document env db coll dk tgt st = (r, tgt', st') \<Longrightarrow>
     (r = Inr True \<and> tgt' = tgt \<and> st' = st)
     \<or> (r = Inr True \<and> (\<exists>call. tgt' = tgt @ [call]) \<and> st' = record_operation ''delete'' st
          \<and> call_error env = None)
     \<or> (r = Inl AttributeError \<and> tgt' = tgt \<and> st' = st)
     \<or> (\<exists>e. r = Inl e \<and> call_error env = Some e \<and> (\<exists>call. tgt' = tgt @ [call]) \<and> st' = st)"
  unfolding delete_document_def Let_def extract_document_id_def attr_get_def
  by (auto split: pyval.splits sum.splits option.splits if_splits)

lemma drop_on_target_cases:
  "drop_on_target env call tgt st = (r, tgt', st') \<Longrightarrow>
     tgt' = tgt @ [call] \<and> st' = st
     \<and> (r = Inr True \<or> (\<exists>e. r = Inl e \<and> call_error env = Some e \<and> e \<noteq> OperationFailure))"
  unfolding drop_on_target_def
  by (auto split: option.splits if_splits)

lemma apply_change_False:
  assumes "apply_change env operation db coll dk change tgt st = (Inr False, tgt', st')"
  shows "operation = PStr ''invalidate'' \<and> tgt' = tgt \<and> st' = st"
  using assms unfolding apply_change_def
  by (auto split: if_splits dest: upsert_document_cases delete_document_cases
      drop_on_target_cases)

lemma apply_change_raises:
  assumes "apply_change env operation db coll dk change tgt st = (Inl e, tgt', st')"
  shows "st' = st"
    and "e = OperationFailure \<Longrightarrow>
           operation \<in> {PStr ''insert'', PStr ''update'', PStr ''replace'', PStr ''delete''}
           \<and> call_error env = Some OperationFailure \<and> (\<exists>call. tgt' = tgt @ [call])"
  using assms unfolding apply_change_def
  by (auto split: if_splits dest: upsert_document_cases delete_document_cases
      drop_on_target_cases)

lemma apply_change_unknown:
  assumes "operation \<notin> {PStr ''insert'', PStr ''update'', PStr ''replace'', PStr ''delete'',
      PStr ''drop'', PStr ''dropDatabase'', PStr ''invalidate''}"
  shows "apply_change env operation db coll dk change tgt st = (Inr True, tgt, st)"
  using assms by (simp add: apply_change_def)

lemma apply_change_no_document:
  assumes "operation \<in> {PStr ''insert'', PStr ''update'', PStr ''replace''}"
    and "\<not> truthy (py_get change ''fullDocument'')"
  shows "apply_change env operation db coll dk change tgt st = (Inr True, tgt, st)"
  using assms by (auto simp: apply_change_def upsert_document_def)

text \<open>
  Claim C3. For every change event, target and store: \<open>sync_change\<close> returns false only
  when the operation type is \<open>invalidate\<close> or an exception other than
  \<open>OperationFailure\<close> leaves the \<open>try\<close> block. When \<open>OperationFailure\<close> leaves the block,
  which only the one document operation of an insert, update, replace or delete raises,
  the call records an \<open>error\<close> operation and returns true. An event whose namespace lacks
  \<open>db\<close> or \<open>coll\<close> returns true with the target and the store untouched; so do an
  event of an unknown operation type and an insert, update or replace without
  \<open>fullDocument\<close>, where the lookup of the collection handle (which stands before the
  \<open>try\<close>) does not raise.
\<close>

theorem sync_change_return_contract:
  fixes env :: target_env and change :: pydict and tgt :: "target_call list" and st :: SyncState
  defines "r \<equiv> sync_change env change tgt st"
    and "operation \<equiv> py_get change ''operationType''"
    and "ns \<equiv> py_get_default change ''ns'' (PDict [])"
  shows "(fst r = Inr False \<longrightarrow>
            operation = PStr ''invalidate''
            \<or> (\<exists>e. raised_in_try env change tgt st = Some e \<and> e \<noteq> OperationFailure))
   \<and> (\<forall>d. ns = PDict d \<and> truthy (py_get d ''db'') \<and> truthy (py_get d ''coll'')
          \<and> handle_error env = None
          \<and> raised_in_try env change tgt st = Some OperationFailure \<longrightarrow>
            fst r = Inr True \<and> snd (snd r) = record_operation ''error'' st
            \<and> operation \<in> {PStr ''insert'', PStr ''update'', PStr ''replace'', PStr ''delete''})
   \<and> (\<forall>d. ns = PDict d \<and> (\<not> truthy (py_get d ''db'') \<or> \<not> truthy (py_get d ''coll'')) \<longrightarrow>
            r = (Inr True, tgt, st))
   \<and> (\<forall>d. ns = PDict d \<and> handle_error env = None
          \<and> operation \<notin> {PStr ''insert'', PStr ''update'', PStr ''replace'', PStr ''delete'',
                PStr ''drop'', PStr ''dropDatabase'', PStr ''invalidate''} \<longrightarrow>
            r = (Inr True, tgt, st))
   \<and> (\<forall>d. ns = PDict d \<and> handle_error env = None
          \<and> operation \<in> {PStr ''insert'', PStr ''update'', PStr ''replace''}
          \<and> \<not> truthy (py_get change ''fullDocument'') \<longrightarrow>
            r = (Inr True, tgt, st))"
proof (cases ns)
  case (PDict d)
  let ?db = "py_get d ''db''" and ?coll = "py_get d ''coll''"
  let ?dk = "py_get_default change ''documentKey'' (PDict [])"
  obtain b tgt' st' where body: "apply_change env operation ?db ?coll ?dk change tgt st = (b, tgt', st')"
    by (cases "apply_change env operation ?db ?coll ?dk change tgt st")
  have raised: "raised_in_try env change tgt st = (case b of Inl e \<Rightarrow> Some e | Inr x \<Rightarrow> None)"
    using PDict body by (simp add: raised_in_try_def ns_def operation_def)
  show ?thesis
  proof (cases "\<not> truthy ?db \<or> \<not> truthy ?coll")
    case True
    then have "r = (Inr True, tgt, st)"
      using PDict by (auto simp: r_def sync_change_def ns_def Let_def)
    with True PDict show ?thesis by auto
  next
    case wf: False
    show ?thesis
    proof (cases "handle_error env")
      case (Some e)
      then have "r = (Inl e, tgt, st)"
        using PDict wf by (auto simp: r_def sync_change_def ns_def Let_def)
      with Some PDict wf show ?thesis by auto
    next
      case None
      have r: "r = (case b of Inl e \<Rightarrow> (Inr (e = OperationFailure), tgt', record_operation ''error'' st')
                    | Inr x \<Rightarrow> (Inr x, tgt', st'))"
        using PDict wf None body
        by (auto simp: r_def sync_change_def ns_def operation_def Let_def split: sum.splits)
      have u: "(b, tgt', st') = (Inr True, tgt, st)"
        if "operation \<notin> {PStr ''insert'', PStr ''update'', PStr ''replace'', PStr ''delete'',
              PStr ''drop'', PStr ''dropDatabase'', PStr ''invalidate''}"
        using apply_change_unknown [OF that, of env ?db ?coll ?dk change tgt st] body by simp
      have n: "(b, tgt', st') = (Inr True, tgt, st)"
        if "operation \<in> {PStr ''insert'', PStr ''update'', PStr ''replace''}"
          "\<not> truthy (py_get change ''fullDocument'')"
        using apply_change_no_document [OF that, of env ?db ?coll ?dk tgt st] body by simp
      have c2: "r = (Inr True, tgt, st)"
        if "operation \<notin> {PStr ''insert'', PStr ''update'', PStr ''replace'', PStr ''delete'',
              PStr ''drop'', PStr ''dropDatabase'', PStr ''invalidate''}"
        using u [OF that] r by simp
      have c3: "r = (Inr True, tgt, st)"
        if "operation \<in> {PStr ''insert'', PStr ''update'', PStr ''replace''}"
          "\<not> truthy (py_get change ''fullDocument'')"
        using n [OF that] r by simp
      have a: "operation = PStr ''invalidate''
            \<or> (\<exists>e. raised_in_try env change tgt st = Some e \<and> e \<noteq> OperationFailure)"
        if "fst r = Inr False"
      proof (cases b)
        case (Inl e)
        with that r raised show ?thesis by auto
      next
        case (Inr x)
        with that r have "x = False" by simp
        then show ?thesis
          using apply_change_False [of env operation ?db ?coll ?dk change tgt st tgt' st']
            body Inr by simp
      qed
      have b: "fst r = Inr True \<and> snd (snd r) = record_operation ''error'' st
            \<and> operation \<in> {PStr ''insert'', PStr ''update'', PStr ''replace'', PStr ''delete''}"
        if "raised_in_try env change tgt st = Some OperationFailure"
      proof -
        from that raised have bl: "b = Inl OperationFailure"
          by (cases b) auto
        note e = apply_change_raises [OF body [unfolded bl]]
        from e(1) e(2) bl r show ?thesis by simp
      qed
      have g1: "fst r = Inr False \<longrightarrow>
            operation = PStr ''invalidate''
            \<or> (\<exists>e. raised_in_try env change tgt st = Some e \<and> e \<noteq> OperationFailure)"
        using a by (rule impI)
      have g2: "\<forall>d. ns = PDict d \<and> truthy (py_get d ''db'') \<and> truthy (py_get d ''coll'')
          \<and> handle_error env = None
          \<and> raised_in_try env change tgt st = Some OperationFailure \<longrightarrow>
            fst r = Inr True \<and> snd (snd r) = record_operation ''error'' st
            \<and> operation \<in> {PStr ''insert'', PStr ''update'', PStr ''replace'', PStr ''delete''}"
        using b by (intro allI impI) (elim conjE)
      have g3: "\<forall>d. ns = PDict d \<and> (\<not> truthy (py_get d ''db'') \<or> \<not> truthy (py_get d ''coll'')) \<longrightarrow>
            r = (Inr True, tgt, st)"
        using PDict wf by simp
      have g4: "\<forall>d. ns = PDict d \<and> handle_error env = None
          \<and> operation \<notin> {PStr ''insert'', PStr ''update'', PStr ''replace'', PStr ''delete'',
                PStr ''drop'', PStr ''dropDatabase'', PStr ''invalidate''} \<longrightarrow>
            r = (Inr True, tgt, st)"
        using c2 by (intro allI impI) (elim conjE)
      have g5: "\<forall>d. ns = PDict d \<and> handle_error env = None
          \<and> operation \<in> {PStr ''insert'', PStr ''update'', PStr ''replace''}
          \<and> \<not> truthy (py_get change ''fullDocument'') \<longrightarrow>
            r = (Inr True, tgt, st)"
        using c3 by (intro allI impI) (elim conjE)
      from g1 g2 g3 g4 g5 show ?thesis
        by (intro conjI)
    qed
  qed
next
  case PNone
  then show ?thesis by (simp add: r_def sync_change_def ns_def Let_def raised_in_try_def)
next
  case (PBool x)
  then show ?thesis by (simp add: r_def sync_change_def ns_def Let_def raised_in_try_def)
next
  case (PInt x)
  then show ?thesis by (simp add: r_def sync_change_def ns_def Let_def raised_in_try_def)
next
  case (PStr x)
  then show ?thesis by (simp add: r_def sync_change_def ns_def Let_def raised_in_try_def)
next
  case (PList x)
  then show ?thesis by (simp add: r_def sync_change_def ns_def Let_def raised_in_try_def)
qed

lemmas event_defs = insert_event_def update_without_document_def invalidate_event_def
  rename_event_def no_collection_event_def items_ns_def target_ok_def target_refuses_def
  target_down_def

lemmas apply_defs = sync_change_def raised_in_try_def apply_change_def upsert_document_def
  delete_document_def drop_on_target_def extract_document_id_def py_or_def py_get_def
  py_get_default_def attr_get_def first_value_def Let_def

lemma eval_invalidate: "sync_change target_ok invalidate_event [] fresh_store = (Inr False, [], fresh_store)"
    by (simp add: apply_defs event_defs)
lemma eval_target_down: "fst (sync_change target_down insert_event [] fresh_store) = Inr False"
    by (simp add: apply_defs event_defs)
lemma eval_raised_down: "raised_in_try target_down insert_event [] fresh_store = Some ConnectionFailure"
    by (simp add: apply_defs event_defs)
lemma eval_raised_refused: "raised_in_try target_refuses insert_event [] fresh_store = Some OperationFailure"
    by (simp add: apply_defs event_defs)

lemma eval_ns: "py_get_default insert_event ''ns'' (PDict []) = items_ns"
    "py_get_default no_collection_event ''ns'' (PDict []) = PDict [(''db'', PStr ''cstest'')]"
    "py_get_default rename_event ''ns'' (PDict []) = items_ns"
    "py_get_default update_without_document ''ns'' (PDict []) = items_ns"
    by (simp_all add: py_get_default_def event_defs)

lemma eval_fields: "py_get rename_event ''operationType'' = PStr ''rename''"
    "py_get update_without_document ''operationType'' = PStr ''update''"
    "py_get update_without_document ''fullDocument'' = PNone"
    by (simp_all add: py_get_def py_get_default_def event_defs)

lemma eval_names: "py_get [(''db'', PStr ''cstest''), (''coll'', PStr ''items'')] ''db'' = PStr ''cstest''"
    "py_get [(''db'', PStr ''cstest''), (''coll'', PStr ''items'')] ''coll'' = PStr ''items''"
    "py_get [(''db'', PStr ''cstest'')] ''coll'' = PNone"
    by (simp_all add: py_get_def py_get_default_def)

lemma eval_handle: "handle_error target_ok = None" "handle_error target_refuses = None"
  by (simp_all add: target_ok_def target_refuses_def)

theorem sync_change_return_contract_witness:
  "fst (sync_change target_down insert_event [] fresh_store) = Inr False
   \<and> raised_in_try target_down insert_event [] fresh_store = Some ConnectionFailure
   \<and> raised_in_try target_refuses insert_event [] fresh_store = Some OperationFailure
   \<and> fst (sync_change target_refuses insert_event [] fresh_store) = Inr True
   \<and> snd (snd (sync_change target_refuses insert_event [] fresh_store))
       = record_operation ''error'' fresh_store
   \<and> sync_change target_ok no_collection_event [] fresh_store = (Inr True, [], fresh_store)
   \<and> sync_change target_ok rename_event [] fresh_store = (Inr True, [], fresh_store)
   \<and> sync_change target_ok update_without_document [] fresh_store = (Inr True, [], fresh_store)"
proof -
  let ?nsd = "[(''db'', PStr ''cstest''), (''coll'', PStr ''items'')]"
  have h1: "fst (sync_change target_down insert_event [] fresh_store) = Inr False"
    by (rule eval_target_down)
  have c1: "py_get insert_event ''operationType'' = PStr ''invalidate''
      \<or> (\<exists>e. raised_in_try target_down insert_event [] fresh_store = Some e
            \<and> e \<noteq> OperationFailure)"
    using sync_change_return_contract [of target_down insert_event "[]" fresh_store,
        THEN conjunct1, rule_format, OF h1] .
  have h2: "py_get_default insert_event ''ns'' (PDict []) = PDict ?nsd
      \<and> truthy (py_get ?nsd ''db'') \<and> truthy (py_get ?nsd ''coll'')
      \<and> handle_error target_refuses = None
      \<and> raised_in_try target_refuses insert_event [] fresh_store = Some OperationFailure"
    by (simp add: eval_ns eval_handle eval_names eval_raised_refused items_ns_def)
  have c2: "fst (sync_change target_refuses insert_event [] fresh_store) = Inr True
      \<and> snd (snd (sync_change target_refuses insert_event [] fresh_store))
          = record_operation ''error'' fresh_store
      \<and> py_get insert_event ''operationType''
          \<in> {PStr ''insert'', PStr ''update'', PStr ''replace'', PStr ''delete''}"
    using sync_change_return_contract [of target_refuses insert_event "[]" fresh_store,
        THEN conjunct2, THEN conjunct1, rule_format, OF h2] .
  have h3: "py_get_default no_collection_event ''ns'' (PDict []) = PDict [(''db'', PStr ''cstest'')]
      \<and> (\<not> truthy (py_get [(''db'', PStr ''cstest'')] ''db'')
          \<or> \<not> truthy (py_get [(''db'', PStr ''cstest'')] ''coll''))"
    by (simp add: eval_ns eval_names)
  have c3: "sync_change target_ok no_collection_event [] fresh_store = (Inr True, [], fresh_store)"
    using sync_change_return_contract [of target_ok no_collection_event "[]" fresh_store,
        THEN conjunct2, THEN conjunct2, THEN conjunct1, rule_format, OF h3] .
  have h4: "py_get_default rename_event ''ns'' (PDict []) = PDict ?nsd
      \<and> handle_error target_ok = None
      \<and> py_get rename_event ''operationType''
          \<notin> {PStr ''insert'', PStr ''update'', PStr ''replace'', PStr ''delete'',
              PStr ''drop'', PStr ''dropDatabase'', PStr ''invalidate''}"
    by (simp add: eval_ns eval_fields eval_handle items_ns_def)
  have c4: "sync_change target_ok rename_event [] fresh_store = (Inr True, [], fresh_store)"
    using sync_change_return_contract [of target_ok rename_event "[]" fresh_store,
        THEN conjunct2, THEN conjunct2, THEN conjunct2, THEN conjunct1, rule_format, OF h4] .
  have h5: "py_get_default update_without_document ''ns'' (PDict []) = PDict ?nsd
      \<and> handle_error target_ok = None
      \<and> py_get update_without_document ''operationType''
          \<in> {PStr ''insert'', PStr ''update'', PStr ''replace''}
      \<and> \<not> truthy (py_get update_without_document ''fullDocument'')"
    by (simp add: eval_ns eval_fields eval_handle items_ns_def)
  have c5: "sync_change target_ok update_without_document [] fresh_store
      = (Inr True, [], fresh_store)"
    using sync_change_return_contract [of target_ok update_without_document "[]" fresh_store,
        THEN conjunct2, THEN conjunct2, THEN conjunct2, THEN conjunct2, rule_format, OF h5] .
  from h1 eval_raised_down eval_raised_refused c2 c3 c4 c5 show ?thesis
    by (intro conjI) (elim conjE, assumption)+
qed

section \<open>One stream and many\<close>

lemma multi_try_next_single:
  "multi_try_next (multi_of_single s) =
     (fst (single_try_next s), multi_of_single (snd (single_try_next s)))"
proof (cases "cursor_try_next (stream s)")
  case (Pair r c')
  show ?thesis
  proof (cases r)
    case (Returns change)
    with Pair show ?thesis
      by (simp add: multi_try_next_def multi_of_single_def single_try_next_def Let_def)
  next
    case (Raises e)
    with Pair show ?thesis
      by (simp add: multi_try_next_def multi_of_single_def single_try_next_def Let_def)
  qed
qed

lemma multi_run_single:
  "multi_run n (multi_of_single s) =
     (fst (single_run n s), multi_of_single (snd (single_run n s)))"
proof (induction n arbitrary: s)
  case 0
  show ?case by simp
next
  case (Suc n)
  show ?case
    by (simp add: multi_try_next_single Suc.IH split: prod.splits)
qed

lemma multi_close_single:
  "multi_close (multi_of_single s) = (fst (single_close s), multi_of_single (snd (single_close s)))"
  by (simp add: multi_close_def single_close_def multi_of_single_def)

text \<open>
  Claim C9. For any cursor and collection name, the single-stream wrapper behaves as the
  multi-stream over that one cursor and name: a call of \<open>try_next\<close> returns the same
  result and leaves the cursor in the same state, so any number of calls in a row return
  the same results; when the cursor raises, both return \<open>(None, None)\<close>; \<open>close\<close>
  calls \<open>close\<close> on the cursor once in both and returns normally whatever the cursor's
  \<open>close\<close> raises.
\<close>

theorem single_stream_is_multi_of_one:
  "multi_try_next (multi_of_single s) =
     (fst (single_try_next s), multi_of_single (snd (single_try_next s)))
   \<and> multi_run n (multi_of_single s) =
     (fst (single_run n s), multi_of_single (snd (single_run n s)))
   \<and> (\<forall>e rest. script (stream s) = Raises e # rest \<longrightarrow>
         fst (single_try_next s) = Inr (None, PNone)
         \<and> fst (multi_try_next (multi_of_single s)) = Inr (None, PNone))
   \<and> multi_close (multi_of_single s) = (Inr (), multi_of_single (snd (single_close s)))
   \<and> fst (single_close s) = Inr ()
   \<and> close_calls (stream (snd (single_close s))) = Suc (close_calls (stream s))"
proof -
  have r: "fst (single_try_next s) = Inr (None, PNone)" if "script (stream s) = Raises e # rest"
    for e rest
    using that by (simp add: single_try_next_def cursor_try_next_def)
  have c: "fst (single_close s) = Inr ()"
    by (simp add: single_close_def)
  have n: "close_calls (stream (snd (single_close s))) = Suc (close_calls (stream s))"
    by (simp add: single_close_def cursor_close_def)
  show ?thesis
    using r c n by (simp add: multi_try_next_single multi_run_single multi_close_single)
qed

theorem single_stream_is_multi_of_one_witness:
  "fst (single_run 3 one_stream) =
     [Inr (None, PNone), Inr (Some ''cstest.items'', PDict insert_event), Inr (None, PNone)]
   \<and> fst (multi_run 3 (multi_of_single one_stream)) =
     [Inr (None, PNone), Inr (Some ''cstest.items'', PDict insert_event), Inr (None, PNone)]
   \<and> script (stream one_stream) = Raises ConnectionFailure # tl (script (stream one_stream))
   \<and> fst (multi_try_next (multi_of_single one_stream)) = Inr (None, PNone)
   \<and> fst (multi_close (multi_of_single one_stream)) = Inr ()
   \<and> close_calls (stream (snd (single_close one_stream))) = 1"
proof -
  have s: "script (stream one_stream) = Raises ConnectionFailure # tl (script (stream one_stream))"
    by (simp add: one_stream_def failing_cursor_def)
  have e: "fst (single_run 3 one_stream) =
     [Inr (None, PNone), Inr (Some ''cstest.items'', PDict insert_event), Inr (None, PNone)]"
    by (simp add: numeral_3_eq_3 one_stream_def failing_cursor_def single_try_next_def
        cursor_try_next_def split: prod.splits)
  have c: "close_calls (stream one_stream) = 0"
    by (simp add: one_stream_def failing_cursor_def)
  note t = single_stream_is_multi_of_one [of one_stream 3]
  have r: "fst (single_try_next one_stream) = Inr (None, PNone)
      \<and> fst (multi_try_next (multi_of_single one_stream)) = Inr (None, PNone)"
    using t [THEN conjunct2, THEN conjunct2, THEN conjunct1, rule_format, OF s] .
  have m: "multi_run 3 (multi_of_single one_stream) =
     (fst (single_run 3 one_stream), multi_of_single (snd (single_run 3 one_stream)))"
    using t [THEN conjunct2, THEN conjunct1] .
  have cl: "multi_close (multi_of_single one_stream) =
      (Inr (), multi_of_single (snd (single_close one_stream)))
    \<and> fst (single_close one_stream) = Inr ()
    \<and> close_calls (stream (snd (single_close one_stream))) = Suc (close_calls (stream one_stream))"
    using t [THEN conjunct2, THEN conjunct2, THEN conjunct2] .
  show ?thesis
    using r s e c m cl by simp
qed

section \<open>The round robin\<close>

lemma offset_back:
  assumes "cur < N" "i < N"
  shows "((cur + i) mod N + N - cur) mod N = (i::nat)"
proof (cases "cur + i < N")
  case True
  then have "(cur + i) mod N + N - cur = i + N" by simp
  then show ?thesis using assms by simp
next
  case False
  then have "(cur + i) mod N = cur + i - N"
    using assms by (simp add: mod_if)
  then have "(cur + i) mod N + N - cur = i"
    using False by simp
  then show ?thesis using assms by simp
qed

lemma offset_forth:
  assumes "cur < N" "j < N"
  shows "(cur + (j + N - cur) mod N) mod N = (j::nat)"
proof (cases "cur \<le> j")
  case True
  then have "(j + N - cur) mod N = j - cur"
    using assms by (simp add: mod_if)
  then show ?thesis using True assms by simp
next
  case False
  then have "(j + N - cur) mod N = j + N - cur"
    using assms by simp
  then have "cur + (j + N - cur) mod N = j + N"
    using False assms by simp
  then show ?thesis using assms by simp
qed

lemma offset_eq_iff:
  assumes "cur < N" "i < N" "j < N"
  shows "j = (cur + i) mod N \<longleftrightarrow> (j + N - cur) mod N = (i::nat)"
  using offset_back [OF assms(1,2)] offset_forth [OF assms(1,3)] by auto

lemma probe_change:
  "has_change c \<Longrightarrow> cursor_try_next c = (Returns (next_change c), probed c) \<and> next_change c \<noteq> PNone"
  by (auto simp: has_change_def next_change_def probed_def cursor_try_next_def
      split: list.splits response.splits)

lemma probe_no_change:
  "\<not> has_change c \<Longrightarrow>
     cursor_try_next c = (Returns PNone, probed c) \<or> (\<exists>e. cursor_try_next c = (Raises e, probed c))"
  by (auto simp: has_change_def probed_def cursor_try_next_def
      split: list.splits response.splits)

lemma polls_probed: "polls (probed c) = Suc (polls c)"
  by (simp add: probed_def cursor_try_next_def split: list.splits)

lemma advanced_0:
  assumes "current_index m < length (streams m)"
  shows "advanced 0 m = m"
  using assms by (simp add: advanced_def map_nth)

lemma advanced_simps:
  "length (streams (advanced i m)) = length (streams m)"
  "collection_names (advanced i m) = collection_names m"
  "current_index (advanced i m) = (current_index m + i) mod length (streams m)"
  by (simp_all add: advanced_def)

lemma advanced_nth:
  "j < length (streams m) \<Longrightarrow>
     streams (advanced i m) ! j = (if offset m j < i then probed (streams m ! j) else streams m ! j)"
  by (simp add: advanced_def)

lemma advanced_Suc:
  assumes cur: "current_index m < length (streams m)" and i: "i < length (streams m)"
  defines "idx \<equiv> (current_index m + i) mod length (streams m)"
  shows "(advanced i m)\<lparr>current_index := (idx + 1) mod length (streams m),
            streams := (streams (advanced i m))[idx := probed (streams m ! idx)]\<rparr>
         = advanced (Suc i) m"
proof -
  let ?N = "length (streams m)"
  have pos: "0 < ?N" using cur by auto
  have idx: "idx < ?N" unfolding idx_def using pos by (rule mod_less_divisor)
  have a: "(idx + 1) mod ?N = (current_index m + Suc i) mod ?N"
    unfolding idx_def by (simp add: mod_Suc_eq)
  have b: "(streams (advanced i m))[idx := probed (streams m ! idx)] = streams (advanced (Suc i) m)"
  proof (rule nth_equalityI)
    show "length ((streams (advanced i m))[idx := probed (streams m ! idx)])
        = length (streams (advanced (Suc i) m))"
      by (simp add: advanced_simps)
  next
    fix j assume "j < length ((streams (advanced i m))[idx := probed (streams m ! idx)])"
    then have j: "j < ?N" by (simp add: advanced_simps)
    have e: "j = idx \<longleftrightarrow> offset m j = i"
      unfolding idx_def offset_def using offset_eq_iff [OF cur i j] .
    show "(streams (advanced i m))[idx := probed (streams m ! idx)] ! j
        = streams (advanced (Suc i) m) ! j"
    proof (cases "j = idx")
      case True
      with e j show ?thesis
        by (simp add: advanced_nth advanced_simps)
    next
      case False
      with e have "offset m j \<noteq> i" by simp
      then have "offset m j < Suc i \<longleftrightarrow> offset m j < i" by auto
      with False j show ?thesis
        by (simp add: advanced_nth advanced_simps)
    qed
  qed
  show ?thesis
    unfolding a b by (simp add: advanced_def)
qed

declare sweep.simps [simp del]

lemma offset_current:
  assumes "current_index m < length (streams m)"
  shows "offset m (current_index m) = 0"
  using assms by (simp add: offset_def)

lemma sweep_step:
  assumes names: "length (collection_names m) = length (streams m)"
    and cur: "current_index m < length (streams m)"
    and i: "i < length (streams m)"
  shows "sweep (Suc n) (advanced i m) =
     (if has_change (streams m ! ((current_index m + i) mod length (streams m)))
      then (Inr (Some (collection_names m ! ((current_index m + i) mod length (streams m))),
                 next_change (streams m ! ((current_index m + i) mod length (streams m)))),
            advanced (Suc i) m)
      else sweep n (advanced (Suc i) m))"
proof -
  let ?N = "length (streams m)"
  let ?idx = "(current_index m + i) mod ?N"
  let ?M = "\<lambda>c'. (advanced i m)\<lparr>current_index := (?idx + 1) mod ?N,
                streams := (streams (advanced i m))[?idx := c']\<rparr>"
  have pos: "0 < ?N" using cur by auto
  have idx: "?idx < ?N" using pos by (rule mod_less_divisor)
  have "offset m ?idx = i"
    unfolding offset_def by (rule offset_back [OF cur i])
  then have st: "streams (advanced i m) ! ?idx = streams m ! ?idx"
    using idx by (simp add: advanced_nth)
  have M: "?M (probed (streams m ! ?idx)) = advanced (Suc i) m"
    using advanced_Suc [OF cur i] .
  have names': "\<not> length (collection_names m) \<le> ?idx"
    using idx names by simp
  have idx': "\<not> ?N \<le> ?idx"
    using idx by simp
  show ?thesis
  proof (cases "has_change (streams m ! ?idx)")
    case True
    from probe_change [OF True]
    have "sweep (Suc n) (advanced i m) =
        (Inr (Some (collection_names m ! ?idx), next_change (streams m ! ?idx)),
         ?M (probed (streams m ! ?idx)))"
      using idx' names' by (simp add: sweep.simps advanced_simps st Let_def)
    with True show ?thesis by (simp only: M if_True)
  next
    case False
    from probe_no_change [OF False]
    have "sweep (Suc n) (advanced i m) = sweep n (?M (probed (streams m ! ?idx)))"
      using idx' names' by (auto simp: sweep.simps advanced_simps st Let_def)
    with False show ?thesis by (simp only: M if_False)
  qed
qed

lemma sweep_skip:
  assumes names: "length (collection_names m) = length (streams m)"
    and cur: "current_index m < length (streams m)"
    and k: "k \<le> length (streams m)"
    and none: "\<forall>i<k. \<not> has_change (streams m ! ((current_index m + i) mod length (streams m)))"
  shows "sweep (k + n) m = sweep n (advanced k m)"
  using k none
proof (induction k arbitrary: n)
  case 0
  show ?case using cur by (simp add: advanced_0)
next
  case (Suc k)
  have "sweep (Suc k + n) m = sweep (k + Suc n) m" by simp
  also have "\<dots> = sweep (Suc n) (advanced k m)"
    using Suc.prems by (intro Suc.IH) auto
  also have "\<dots> = sweep n (advanced (Suc k) m)"
    using Suc.prems sweep_step [OF names cur, of k n] by simp
  finally show ?case .
qed

lemma multi_try_next_yield:
  assumes names: "length (collection_names m) = length (streams m)"
    and cur: "current_index m < length (streams m)"
    and k: "k < length (streams m)"
    and none: "\<forall>i<k. \<not> has_change (streams m ! ((current_index m + i) mod length (streams m)))"
    and some: "has_change (streams m ! ((current_index m + k) mod length (streams m)))"
  shows "multi_try_next m =
     (Inr (Some (collection_names m ! ((current_index m + k) mod length (streams m))),
           next_change (streams m ! ((current_index m + k) mod length (streams m)))),
      advanced (Suc k) m)"
proof -
  let ?N = "length (streams m)"
  define n where "n = ?N - Suc k"
  have n: "?N = k + Suc n"
    using k by (simp add: n_def)
  have "multi_try_next m = sweep ?N m"
    using cur by (auto simp: multi_try_next_def)
  also have "\<dots> = sweep (k + Suc n) m"
    by (simp only: n)
  also have "\<dots> = sweep (Suc n) (advanced k m)"
    using k none by (intro sweep_skip [OF names cur]) auto
  also have "\<dots> = (Inr (Some (collection_names m ! ((current_index m + k) mod ?N)),
           next_change (streams m ! ((current_index m + k) mod ?N))), advanced (Suc k) m)"
    using some sweep_step [OF names cur k, of n] by simp
  finally show ?thesis .
qed

lemma multi_try_next_idle:
  assumes names: "length (collection_names m) = length (streams m)"
    and cur: "current_index m < length (streams m)"
    and none: "\<forall>i<length (streams m).
        \<not> has_change (streams m ! ((current_index m + i) mod length (streams m)))"
  shows "multi_try_next m = (Inr (None, PNone), advanced (length (streams m)) m)"
proof -
  let ?N = "length (streams m)"
  have "multi_try_next m = sweep (?N + 0) m"
    using cur by (auto simp: multi_try_next_def)
  also have "\<dots> = sweep 0 (advanced ?N m)"
    using none by (intro sweep_skip [OF names cur]) auto
  finally show ?thesis by (simp add: sweep.simps)
qed

lemma multi_try_next_advanced:
  assumes names: "length (collection_names m) = length (streams m)"
    and cur: "current_index m < length (streams m)"
  shows "\<exists>k. 0 < k \<and> k \<le> length (streams m) \<and> snd (multi_try_next m) = advanced k m"
proof (cases "\<exists>i. i < length (streams m)
    \<and> has_change (streams m ! ((current_index m + i) mod length (streams m)))")
  case True
  then obtain k where k: "k < length (streams m)"
      "has_change (streams m ! ((current_index m + k) mod length (streams m)))"
    and least: "\<forall>i<k. \<not> (i < length (streams m)
        \<and> has_change (streams m ! ((current_index m + i) mod length (streams m))))"
    using exists_least_iff [of "\<lambda>i. i < length (streams m)
        \<and> has_change (streams m ! ((current_index m + i) mod length (streams m)))"]
    by auto
  from least k(1) have none:
    "\<forall>i<k. \<not> has_change (streams m ! ((current_index m + i) mod length (streams m)))"
    by auto
  have "snd (multi_try_next m) = advanced (Suc k) m"
    by (simp add: multi_try_next_yield [OF names cur k(1) none k(2)])
  with k(1) show ?thesis by (intro exI [of _ "Suc k"]) simp
next
  case False
  then have "snd (multi_try_next m) = advanced (length (streams m)) m"
    by (simp add: multi_try_next_idle [OF names cur])
  with cur show ?thesis by (intro exI [of _ "length (streams m)"]) auto
qed

text \<open>
  Claim C7. Take a multiplexer whose lists of cursors and names have the same length.
  With no cursor, \<open>try_next\<close> returns \<open>(None, None)\<close>. Otherwise (the index being in
  range, as the class keeps it) a call probes every cursor at most once and probes the
  cursor at the current index. If, counting from the current index around the list, the
  cursor at distance \<open>k\<close> is the first that has a change, the call returns that cursor's
  collection name with the change, the index moves just past that cursor, and exactly the
  cursors up to distance \<open>k\<close> have been probed, once each. If no cursor has a change the
  call returns \<open>(None, None)\<close> with the index where it was and every cursor probed once.
  A cursor whose \<open>try_next\<close> raises counts as one without a change: the sweep goes on
  past it, and no exception leaves the call.
\<close>

theorem multi_try_next_round_robin:
  fixes m :: multi_stream
  defines "N \<equiv> length (streams m)" and "cur \<equiv> current_index m"
    and "r \<equiv> multi_try_next m"
  assumes names: "length (collection_names m) = length (streams m)"
  shows "(N = 0 \<longrightarrow> r = (Inr (None, PNone), m))
   \<and> (cur < N \<longrightarrow>
        (\<forall>j<N. polls (streams (snd r) ! j) \<le> Suc (polls (streams m ! j)))
        \<and> length (streams (snd r)) = N
        \<and> collection_names (snd r) = collection_names m
        \<and> polls (streams (snd r) ! cur) = Suc (polls (streams m ! cur))
        \<and> (\<forall>k<N. has_change (streams m ! ((cur + k) mod N))
               \<and> (\<forall>i<k. \<not> has_change (streams m ! ((cur + i) mod N))) \<longrightarrow>
              fst r = Inr (Some (collection_names m ! ((cur + k) mod N)),
                           next_change (streams m ! ((cur + k) mod N)))
              \<and> next_change (streams m ! ((cur + k) mod N)) \<noteq> PNone
              \<and> current_index (snd r) = (cur + k + 1) mod N
              \<and> (\<forall>j<N. streams (snd r) ! j =
                    (if offset m j \<le> k then probed (streams m ! j) else streams m ! j)))
        \<and> ((\<forall>j<N. \<not> has_change (streams m ! j)) \<longrightarrow>
              fst r = Inr (None, PNone) \<and> current_index (snd r) = cur
              \<and> (\<forall>j<N. streams (snd r) ! j = probed (streams m ! j))))"
proof (intro conjI impI)
  assume "N = 0"
  then show "r = (Inr (None, PNone), m)"
    by (simp add: r_def N_def multi_try_next_def)
next
  assume c: "cur < N"
  then have cur: "current_index m < length (streams m)"
    by (simp add: cur_def N_def)
  obtain k where k: "0 < k" "k \<le> length (streams m)" "snd r = advanced k m"
    using multi_try_next_advanced [OF names cur] unfolding r_def by blast
  show "\<forall>j<N. polls (streams (snd r) ! j) \<le> Suc (polls (streams m ! j))"
    by (simp add: k(3) N_def advanced_nth polls_probed)
  show "length (streams (snd r)) = N"
    by (simp add: k(3) N_def advanced_simps)
  show "collection_names (snd r) = collection_names m"
    by (simp add: k(3) advanced_simps)
  show "polls (streams (snd r) ! cur) = Suc (polls (streams m ! cur))"
    using k(1) cur by (simp add: k(3) cur_def advanced_nth offset_current polls_probed)
  show "\<forall>k<N. has_change (streams m ! ((cur + k) mod N))
               \<and> (\<forall>i<k. \<not> has_change (streams m ! ((cur + i) mod N))) \<longrightarrow>
              fst r = Inr (Some (collection_names m ! ((cur + k) mod N)),
                           next_change (streams m ! ((cur + k) mod N)))
              \<and> next_change (streams m ! ((cur + k) mod N)) \<noteq> PNone
              \<and> current_index (snd r) = (cur + k + 1) mod N
              \<and> (\<forall>j<N. streams (snd r) ! j =
                    (if offset m j \<le> k then probed (streams m ! j) else streams m ! j))"
  proof (intro allI impI, elim conjE)
    fix k
    assume k: "k < N"
      and some: "has_change (streams m ! ((cur + k) mod N))"
      and none: "\<forall>i<k. \<not> has_change (streams m ! ((cur + i) mod N))"
    have y: "r = (Inr (Some (collection_names m ! ((cur + k) mod N)),
                       next_change (streams m ! ((cur + k) mod N))),
                  advanced (Suc k) m)"
      unfolding r_def N_def cur_def
      using k some none
      by (intro multi_try_next_yield [OF names cur]) (simp_all add: N_def cur_def)
    have le: "offset m j < Suc k \<longleftrightarrow> offset m j \<le> k" for j
      by auto
    show "fst r = Inr (Some (collection_names m ! ((cur + k) mod N)),
                           next_change (streams m ! ((cur + k) mod N)))
              \<and> next_change (streams m ! ((cur + k) mod N)) \<noteq> PNone
              \<and> current_index (snd r) = (cur + k + 1) mod N
              \<and> (\<forall>j<N. streams (snd r) ! j =
                    (if offset m j \<le> k then probed (streams m ! j) else streams m ! j))"
      using probe_change [OF some]
      by (simp add: y advanced_simps advanced_nth le N_def cur_def)
  qed
  assume quiet: "\<forall>j<N. \<not> has_change (streams m ! j)"
  have pos: "0 < N" using c by auto
  have "\<forall>i<length (streams m).
      \<not> has_change (streams m ! ((current_index m + i) mod length (streams m)))"
    using quiet pos by (simp add: N_def)
  then have i: "r = (Inr (None, PNone), advanced N m)"
    unfolding r_def N_def by (rule multi_try_next_idle [OF names cur])
  have off: "offset m j < N" for j
    unfolding offset_def N_def using pos [unfolded N_def] by (rule mod_less_divisor)
  show "fst r = Inr (None, PNone)"
    by (simp add: i)
  show "current_index (snd r) = cur"
    using c by (simp add: i advanced_simps N_def cur_def)
  show "\<forall>j<N. streams (snd r) ! j = probed (streams m ! j)"
    using off by (simp add: i advanced_nth N_def)
qed

lemmas stream_defs = three_streams_def quiet_streams_def idle_cursor_def raising_cursor_def
  ready_cursor_def

theorem multi_try_next_round_robin_witness:
  "length (collection_names three_streams) = length (streams three_streams)
   \<and> current_index three_streams < length (streams three_streams)
   \<and> \<not> has_change (streams three_streams ! 1)
   \<and> has_change (streams three_streams ! 2)
   \<and> fst (multi_try_next three_streams) = Inr (Some ''c.z'', PDict insert_event)
   \<and> current_index (snd (multi_try_next three_streams)) = 0
   \<and> polls (streams (snd (multi_try_next three_streams)) ! 1) = 1
   \<and> length (collection_names quiet_streams) = length (streams quiet_streams)
   \<and> current_index quiet_streams < length (streams quiet_streams)
   \<and> fst (multi_try_next quiet_streams) = Inr (None, PNone)
   \<and> current_index (snd (multi_try_next quiet_streams)) = 1"
proof -
  have n3: "length (collection_names three_streams) = length (streams three_streams)"
    by (simp add: stream_defs)
  have c3: "current_index three_streams < length (streams three_streams)"
    by (simp add: stream_defs)
  have cur3: "current_index three_streams = 1"
    by (simp add: stream_defs)
  have h1: "\<not> has_change (streams three_streams ! 1)"
    by (simp add: stream_defs has_change_def)
  have h2: "has_change (streams three_streams ! 2)"
    by (simp add: stream_defs has_change_def)
  have k3: "1 < length (streams three_streams)"
    by (simp add: stream_defs)
  have idx: "(current_index three_streams + 1) mod length (streams three_streams) = 2"
    by (simp add: stream_defs)
  have idx0: "(current_index three_streams + 0) mod length (streams three_streams) = 1"
    by (simp add: stream_defs)
  have idx1: "(current_index three_streams + 1 + 1) mod length (streams three_streams) = 0"
    by (simp add: stream_defs)
  have k3': "has_change (streams three_streams
             ! ((current_index three_streams + 1) mod length (streams three_streams)))
      \<and> (\<forall>i<1. \<not> has_change (streams three_streams
             ! ((current_index three_streams + i) mod length (streams three_streams))))"
    by (simp add: stream_defs has_change_def)
  note t3 = multi_try_next_round_robin [OF n3, THEN conjunct2, THEN mp, OF c3]
  note y = t3 [THEN conjunct2, THEN conjunct2, THEN conjunct2, THEN conjunct2, THEN conjunct1,
        THEN spec, THEN mp, OF k3, THEN mp, OF k3']
  note p = t3 [THEN conjunct2, THEN conjunct2, THEN conjunct2, THEN conjunct1]
  have v: "collection_names three_streams ! 2 = ''c.z''"
    "next_change (streams three_streams ! 2) = PDict insert_event"
    "polls (streams three_streams ! 1) = 0"
    by (simp_all add: stream_defs next_change_def)
  have r3: "fst (multi_try_next three_streams) = Inr (Some ''c.z'', PDict insert_event)"
    using y [THEN conjunct1] by (simp only: idx v)
  have i3: "current_index (snd (multi_try_next three_streams)) = 0"
    using y [THEN conjunct2, THEN conjunct2, THEN conjunct1] by (simp only: idx1)
  have p3: "polls (streams (snd (multi_try_next three_streams)) ! 1) = 1"
    using p v(3) by (simp add: cur3)
  have n2: "length (collection_names quiet_streams) = length (streams quiet_streams)"
    by (simp add: stream_defs)
  have c2: "current_index quiet_streams < length (streams quiet_streams)"
    by (simp add: stream_defs)
  have cur2: "current_index quiet_streams = 1"
    by (simp add: stream_defs)
  have q: "\<forall>j<length (streams quiet_streams). \<not> has_change (streams quiet_streams ! j)"
    by (simp add: stream_defs has_change_def less_Suc_eq)
  note t2 = multi_try_next_round_robin [OF n2, THEN conjunct2, THEN mp, OF c2]
  note z = t2 [THEN conjunct2, THEN conjunct2, THEN conjunct2, THEN conjunct2, THEN conjunct2,
        THEN mp, OF q]
  have r2: "fst (multi_try_next quiet_streams) = Inr (None, PNone)"
    using z [THEN conjunct1] .
  have i2: "current_index (snd (multi_try_next quiet_streams)) = 1"
    using z [THEN conjunct2, THEN conjunct1] by (simp only: cur2)
  from n3 c3 h1 h2 r3 i3 p3 n2 c2 r2 i2 show ?thesis
    by (intro conjI)
qed

end
